theory Spec2Isabelle
  imports Main "HOL-Library.Word"
begin

section \<open>The function fixpoint of the interprocedural value analysis\<close>

text \<open>
  A shallow embedding of \<^verbatim>\<open>function_fixpoint.cpp\<close>: the class
  \<^verbatim>\<open>FunctionFixpoint\<close> binds a generic forward fixpoint iterator, a statement
  execution engine, a call execution engine, a progress logger and a list of checkers
  into the analysis of one function under one call context.

  The class only orchestrates. Everything it calls lives in other translation units, so
  the embedding takes those collaborators as the fields of one record of functions
  (\<open>collab\<close>) and never looks inside them. What the class itself does (which
  collaborator it calls, in which order, on which arguments, under which condition) is
  translated member function by member function.
\<close>

subsection \<open>Data\<close>

text \<open>
  Objects of the intermediate representation and of the analyzer are handled through
  pointers only; a pointer is modelled by the number that identifies the object.
\<close>

type_synonym Function = nat
type_synonym BasicBlock = nat
type_synonym Statement = nat
type_synonym CallBase = nat
type_synonym CallContext = nat
type_synonym Checker = nat

text \<open>
  Modelled from the spec: the enumerations \<^verbatim>\<open>WideningStrategy\<close> and
  \<^verbatim>\<open>NarrowingStrategy\<close> are declared in a header that is not part of the
  sources; the valid values are Widen and Join, Narrow and Meet. An object of an
  enumeration type can hold any value of the underlying integer type, which is why both
  dispatches have a \<^verbatim>\<open>default\<close> label; the third constructor stands for the
  values that are not enumerators.
\<close>

datatype WideningStrategy = Widen | Join | Unexpected_WideningStrategy int

datatype NarrowingStrategy = Narrow | Meet | Unexpected_NarrowingStrategy int

text \<open>
  Modelled from the spec: the options structure is declared in a header that is not part
  of the sources. These are the four options the class reads: the number of plain-join
  iterations before widening, the two strategies, and the optional bound on the narrowing
  iterations. The two numbers are compared with the \<^verbatim>\<open>unsigned\<close> iteration
  counter and have its type.
\<close>

record AnalysisOptions =
  loop_iterations :: "32 word"
  widening_strategy :: WideningStrategy
  narrowing_strategy :: NarrowingStrategy
  narrowing_iterations :: "32 word option"

text \<open>
  A fixpoint profile answers \<^verbatim>\<open>widening_hint(head)\<close> with an optional threshold
  (an integer).
\<close>

type_synonym FixpointProfile = "BasicBlock \<Rightarrow> int option"

text \<open>
  Modelled from the spec: the kind of a cycle iteration, ascending or descending; the
  enumeration is declared outside the sources.
\<close>

datatype FixpointIterationKind = Increasing | Decreasing

text \<open>
  Modelled from the spec: the macro \<^verbatim>\<open>ikos_unreachable(msg)\<close> is defined outside
  the sources; reaching it is a fatal failure that ends the analysis. A member function
  that reaches it returns this error and no abstract value.
\<close>

datatype error = Unreachable string

text \<open>
  Modelled from the spec: the call execution engine is defined outside the sources. It is
  built with the two flags \<^verbatim>\<open>context_stable\<close> and
  \<^verbatim>\<open>convergence_achieved\<close>, and it has a mode in which callees are checked,
  which is off until \<^verbatim>\<open>mark_check_callees\<close> is called.
\<close>

record CallExecutionEngine =
  context_stable :: bool
  convergence_achieved :: bool
  check_callees :: bool

text \<open>
  The calls the class makes to the logger, the generic iterator, the two engines and the
  checkers are written to a call log, in the order they are made. \<open>'d\<close> is the
  abstract domain.
\<close>

datatype 'd call =
    Logger_start_callee CallContext Function
  | Logger_end_callee CallContext Function
  | Logger_start_cycle BasicBlock
  | Logger_start_cycle_iter BasicBlock "32 word" FixpointIterationKind
  | Logger_end_cycle BasicBlock
  | Iterator_run 'd
  | Iterator_clear_post
  | Mark_convergence_achieved
  | Mark_check_callees
  | Set_inv 'd
  | Exec_enter BasicBlock
  | Exec_leave BasicBlock
  | Exec_edge BasicBlock BasicBlock
  | Exec_exit Function
  | Transfer_function Statement
  | Checker_check Checker Statement 'd CallContext

text \<open>
  The members of \<^verbatim>\<open>FunctionFixpoint\<close>. \<open>func\<close> is the member
  \<^verbatim>\<open>_function\<close>. \<open>exec_engine\<close> is the invariant the
  statement execution engine currently holds (\<^verbatim>\<open>set_inv\<close> writes it,
  \<^verbatim>\<open>inv()\<close> reads it). \<open>pre_table\<close> and \<open>post_table\<close> are the invariant
  tables of the base class \<^verbatim>\<open>FwdFixpointIterator\<close>. \<open>calls\<close> is the call log
  of the object; the logger and the checkers, which the object holds by reference, are
  seen through it.
\<close>

record 'd FunctionFixpoint =
  opts :: AnalysisOptions
  func :: Function
  call_context :: CallContext
  profile :: "FixpointProfile option"
  analyzed_functions :: "Function list"
  checkers :: "Checker list"
  exec_engine :: 'd
  call_exec_engine :: CallExecutionEngine
  pre_table :: "BasicBlock \<rightharpoonup> 'd"
  post_table :: "BasicBlock \<rightharpoonup> 'd"
  calls :: "'d call list"

text \<open>
  The collaborators, none of which is defined in this translation unit: the analysis
  context (options, call context factory, optional profiler), the intermediate
  representation, the lattice operations of the abstract domain (each
  \<^verbatim>\<open>x.op_with(y)\<close> updates \<open>x\<close> in place; the field returns the updated
  \<open>x\<close>), the statement and call execution engines, and the generic iterator.
  \<open>moved_from\<close> is what an abstract value holds after it has been moved out of.
  \<open>iterator_run\<close> is \<^verbatim>\<open>FwdFixpointIterator::run\<close>.
\<close>

record 'd collab =
  ctx_opts :: AnalysisOptions
  get_empty :: CallContext
  get_context :: "CallContext \<Rightarrow> CallBase \<Rightarrow> CallContext"
  context_empty :: "CallContext \<Rightarrow> bool"
  fixpoint_profiler :: "(Function \<Rightarrow> FixpointProfile option) option"
  body :: "Function \<Rightarrow> BasicBlock list"
  exit_block_or_null :: "Function \<Rightarrow> BasicBlock option"
  statements :: "BasicBlock \<Rightarrow> Statement list"
  has_frontend :: "Statement \<Rightarrow> bool"
  bottom :: 'd
  leq :: "'d \<Rightarrow> 'd \<Rightarrow> bool"
  join_iter_with :: "'d \<Rightarrow> 'd \<Rightarrow> 'd"
  widen_with :: "'d \<Rightarrow> 'd \<Rightarrow> 'd"
  widen_threshold_with :: "'d \<Rightarrow> 'd \<Rightarrow> int \<Rightarrow> 'd"
  narrow_with :: "'d \<Rightarrow> 'd \<Rightarrow> 'd"
  narrow_threshold_with :: "'d \<Rightarrow> 'd \<Rightarrow> int \<Rightarrow> 'd"
  meet_with :: "'d \<Rightarrow> 'd \<Rightarrow> 'd"
  moved_from :: "'d \<Rightarrow> 'd"
  exec_enter :: "BasicBlock \<Rightarrow> 'd \<Rightarrow> 'd"
  exec_leave :: "BasicBlock \<Rightarrow> 'd \<Rightarrow> 'd"
  exec_edge :: "BasicBlock \<Rightarrow> BasicBlock \<Rightarrow> 'd \<Rightarrow> 'd"
  transfer_function ::
    "Statement \<Rightarrow> 'd \<Rightarrow> CallExecutionEngine \<Rightarrow> 'd \<times> CallExecutionEngine"
  exec_exit :: "Function \<Rightarrow> 'd \<Rightarrow> CallExecutionEngine \<Rightarrow> 'd \<times> CallExecutionEngine"
  iterator_run :: "'d \<Rightarrow> 'd FunctionFixpoint \<Rightarrow> 'd FunctionFixpoint"

subsection \<open>Extrapolation, refinement and the end of the decreasing iterations\<close>

text \<open>
  The ascending iterations at a loop head. The first \<^verbatim>\<open>if\<close> returns before the
  dispatch on the strategy is reached. In the \<^verbatim>\<open>Widen\<close> case the threshold is
  looked up only when \<^verbatim>\<open>iteration == loop_iterations + 1\<close> (unsigned
  arithmetic) and a profile exists; every other path falls through to the plain widening.
\<close>

definition extrapolate ::
  "'d collab \<Rightarrow> 'd FunctionFixpoint \<Rightarrow> BasicBlock \<Rightarrow> 32 word \<Rightarrow> 'd \<Rightarrow> 'd \<Rightarrow> error + 'd"
where
  "extrapolate E this head iteration before_inv after_inv =
    (if iteration \<le> loop_iterations (opts this) then
       Inr (join_iter_with E before_inv after_inv)
     else
       (case widening_strategy (opts this) of
          Widen \<Rightarrow>
            (case (if iteration = loop_iterations (opts this) + 1
                   then (case profile this of Some p \<Rightarrow> p head | None \<Rightarrow> None)
                   else None) of
               Some threshold \<Rightarrow> Inr (widen_threshold_with E before_inv after_inv threshold)
             | None \<Rightarrow> Inr (widen_with E before_inv after_inv))
        | Join \<Rightarrow> Inr (join_iter_with E before_inv after_inv)
        | Unexpected_WideningStrategy v \<Rightarrow> Inl (Unreachable ''unexpected strategy'')))"

text \<open>The descending iterations at a loop head.\<close>

definition refine ::
  "'d collab \<Rightarrow> 'd FunctionFixpoint \<Rightarrow> BasicBlock \<Rightarrow> 32 word \<Rightarrow> 'd \<Rightarrow> 'd \<Rightarrow> error + 'd"
where
  "refine E this head iteration before_inv after_inv =
    (case narrowing_strategy (opts this) of
       Narrow \<Rightarrow>
         (case (if iteration = 1
                then (case profile this of Some p \<Rightarrow> p head | None \<Rightarrow> None)
                else None) of
            Some threshold \<Rightarrow> Inr (narrow_threshold_with E before_inv after_inv threshold)
          | None \<Rightarrow> Inr (narrow_with E before_inv after_inv))
     | Meet \<Rightarrow> Inr (meet_with E before_inv after_inv)
     | Unexpected_NarrowingStrategy v \<Rightarrow> Inl (Unreachable ''unexpected strategy''))"

text \<open>
  The end of the descending iterations: the optional bound is tested first, then
  \<^verbatim>\<open>before.leq(after)\<close>.
\<close>

definition is_decreasing_iterations_fixpoint ::
  "'d collab \<Rightarrow> 'd FunctionFixpoint \<Rightarrow> BasicBlock \<Rightarrow> 32 word \<Rightarrow> 'd \<Rightarrow> 'd \<Rightarrow> bool"
where
  "is_decreasing_iterations_fixpoint E this head iteration before_inv after_inv =
    ((case narrowing_iterations (opts this) of
        Some n \<Rightarrow> iteration \<ge> n
      | None \<Rightarrow> False)
     \<or> leq E before_inv after_inv)"

subsection \<open>Calls to the collaborators\<close>

text \<open>
  One definition per call. Each writes the call to the log of the calling object and
  stores what the collaborator gives back in the member the call can change.
\<close>

definition log_call :: "'d call \<Rightarrow> 'd FunctionFixpoint \<Rightarrow> 'd FunctionFixpoint" where
  "log_call c this = this\<lparr>calls := calls this @ [c]\<rparr>"

definition logger_start_callee ::
  "CallContext \<Rightarrow> Function \<Rightarrow> 'd FunctionFixpoint \<Rightarrow> 'd FunctionFixpoint"
where
  "logger_start_callee c f this = log_call (Logger_start_callee c f) this"

definition logger_end_callee ::
  "CallContext \<Rightarrow> Function \<Rightarrow> 'd FunctionFixpoint \<Rightarrow> 'd FunctionFixpoint"
where
  "logger_end_callee c f this = log_call (Logger_end_callee c f) this"

definition set_inv :: "'d \<Rightarrow> 'd FunctionFixpoint \<Rightarrow> 'd FunctionFixpoint" where
  "set_inv v this = log_call (Set_inv v) (this\<lparr>exec_engine := v\<rparr>)"

definition call_exec_enter ::
  "'d collab \<Rightarrow> BasicBlock \<Rightarrow> 'd FunctionFixpoint \<Rightarrow> 'd FunctionFixpoint"
where
  "call_exec_enter E bb this =
    log_call (Exec_enter bb) (this\<lparr>exec_engine := exec_enter E bb (exec_engine this)\<rparr>)"

definition call_exec_leave ::
  "'d collab \<Rightarrow> BasicBlock \<Rightarrow> 'd FunctionFixpoint \<Rightarrow> 'd FunctionFixpoint"
where
  "call_exec_leave E bb this =
    log_call (Exec_leave bb) (this\<lparr>exec_engine := exec_leave E bb (exec_engine this)\<rparr>)"

definition call_exec_edge ::
  "'d collab \<Rightarrow> BasicBlock \<Rightarrow> BasicBlock \<Rightarrow> 'd FunctionFixpoint \<Rightarrow> 'd FunctionFixpoint"
where
  "call_exec_edge E src dest this =
    log_call (Exec_edge src dest)
      (this\<lparr>exec_engine := exec_edge E src dest (exec_engine this)\<rparr>)"

text \<open>
  \<^verbatim>\<open>transfer_function(_exec_engine, _call_exec_engine, stmt)\<close> and
  \<^verbatim>\<open>_call_exec_engine.exec_exit(f)\<close> may change both engines.
\<close>

definition call_transfer_function ::
  "'d collab \<Rightarrow> Statement \<Rightarrow> 'd FunctionFixpoint \<Rightarrow> 'd FunctionFixpoint"
where
  "call_transfer_function E stmt this =
    (case transfer_function E stmt (exec_engine this) (call_exec_engine this) of
       (v, c) \<Rightarrow>
         log_call (Transfer_function stmt) (this\<lparr>exec_engine := v, call_exec_engine := c\<rparr>))"

definition call_exec_exit ::
  "'d collab \<Rightarrow> Function \<Rightarrow> 'd FunctionFixpoint \<Rightarrow> 'd FunctionFixpoint"
where
  "call_exec_exit E f this =
    (case exec_exit E f (exec_engine this) (call_exec_engine this) of
       (v, c) \<Rightarrow> log_call (Exec_exit f) (this\<lparr>exec_engine := v, call_exec_engine := c\<rparr>))"

text \<open>
  Modelled from the spec: the two member functions of the call execution engine that
  switch a flag on. \<open>mark_convergence_achieved\<close> sets \<open>convergence_achieved\<close>,
  \<open>mark_check_callees\<close> switches the engine to checking callees.
\<close>

definition mark_convergence_achieved :: "'d FunctionFixpoint \<Rightarrow> 'd FunctionFixpoint" where
  "mark_convergence_achieved this =
    log_call Mark_convergence_achieved
      (this\<lparr>call_exec_engine := (call_exec_engine this)\<lparr>convergence_achieved := True\<rparr>\<rparr>)"

definition mark_check_callees :: "'d FunctionFixpoint \<Rightarrow> 'd FunctionFixpoint" where
  "mark_check_callees this =
    log_call Mark_check_callees
      (this\<lparr>call_exec_engine := (call_exec_engine this)\<lparr>check_callees := True\<rparr>\<rparr>)"

definition checker_check ::
  "Checker \<Rightarrow> Statement \<Rightarrow> 'd \<Rightarrow> CallContext \<Rightarrow> 'd FunctionFixpoint \<Rightarrow> 'd FunctionFixpoint"
where
  "checker_check k stmt v c this = log_call (Checker_check k stmt v c) this"

text \<open>
  The base class. \<^verbatim>\<open>FwdFixpointIterator::run\<close> is the collaborator
  \<open>iterator_run\<close>; it works through the virtual member functions of the object, so it
  can change the two engines and the two invariant tables, and nothing else of the object.
  The calls those member functions make while the iterator runs are not calls of
  \<^verbatim>\<open>run\<close> itself: the log gets the one call of the iterator.
\<close>

definition FwdFixpointIterator_run ::
  "'d collab \<Rightarrow> 'd \<Rightarrow> 'd FunctionFixpoint \<Rightarrow> 'd FunctionFixpoint"
where
  "FwdFixpointIterator_run E v this =
    (let r = iterator_run E v this in
     log_call (Iterator_run v)
       (this\<lparr>exec_engine := exec_engine r,
             call_exec_engine := call_exec_engine r,
             pre_table := pre_table r,
             post_table := post_table r\<rparr>))"

text \<open>
  Modelled from the spec: \<^verbatim>\<open>clear_post\<close> and \<^verbatim>\<open>pre\<close> are member functions
  of the base class, which is not part of the sources. \<open>clear_post\<close> discards every
  stored post-invariant and keeps the pre-invariants; \<open>pre\<close> reads the stored
  pre-invariant of a block, a block with none being unreachable (bottom).
\<close>

definition clear_post :: "'d FunctionFixpoint \<Rightarrow> 'd FunctionFixpoint" where
  "clear_post this = log_call Iterator_clear_post (this\<lparr>post_table := Map.empty\<rparr>)"

definition pre :: "'d collab \<Rightarrow> 'd FunctionFixpoint \<Rightarrow> BasicBlock \<Rightarrow> 'd" where
  "pre E this bb = (case pre_table this bb of Some v \<Rightarrow> v | None \<Rightarrow> bottom E)"

subsection \<open>Construction\<close>

text \<open>
  The constructor for the entry point. The call log of a new object is empty.
\<close>

definition FunctionFixpoint_entry ::
  "'d collab \<Rightarrow> Checker list \<Rightarrow> Function \<Rightarrow> 'd FunctionFixpoint"
where
  "FunctionFixpoint_entry E cks entry_point =
    \<lparr>opts = ctx_opts E,
     func = entry_point,
     call_context = get_empty E,
     profile =
       (case fixpoint_profiler E of
          None \<Rightarrow> None
        | Some profiler \<Rightarrow> profiler entry_point),
     analyzed_functions = [entry_point],
     checkers = cks,
     exec_engine = bottom E,
     call_exec_engine =
       \<lparr>context_stable = True, convergence_achieved = False, check_callees = False\<rparr>,
     pre_table = Map.empty,
     post_table = Map.empty,
     calls = []\<rparr>"

text \<open>
  The constructor for a callee: the member initialisers read the caller, then the body
  of the constructor appends the callee to the new object's own vector.
\<close>

definition FunctionFixpoint_child ::
  "'d collab \<Rightarrow> 'd FunctionFixpoint \<Rightarrow> CallBase \<Rightarrow> Function \<Rightarrow> bool \<Rightarrow> 'd FunctionFixpoint"
where
  "FunctionFixpoint_child E caller call callee is_stable =
    (let this =
       \<lparr>opts = ctx_opts E,
        func = callee,
        call_context = get_context E (call_context caller) call,
        profile =
          (case fixpoint_profiler E of
             None \<Rightarrow> None
           | Some profiler \<Rightarrow> profiler callee),
        analyzed_functions = analyzed_functions caller,
        checkers = checkers caller,
        exec_engine = bottom E,
        call_exec_engine =
          \<lparr>context_stable = is_stable, convergence_achieved = False, check_callees = False\<rparr>,
        pre_table = Map.empty,
        post_table = Map.empty,
        calls = []\<rparr>
     in this\<lparr>analyzed_functions := analyzed_functions this @ [callee]\<rparr>)"

text \<open>
  The caller is passed by reference. To say what construction does to the caller, objects
  live in a store, addressed by numbers: the constructor reads the caller at its address
  and initialises the new object at an address that holds no object yet. It fails when
  the reference is dangling or the address is taken.
\<close>

type_synonym 'd store = "nat \<rightharpoonup> 'd FunctionFixpoint"

definition construct_child ::
  "'d collab \<Rightarrow> 'd store \<Rightarrow> nat \<Rightarrow> nat \<Rightarrow> CallBase \<Rightarrow> Function \<Rightarrow> bool \<Rightarrow> 'd store option"
where
  "construct_child E st this_addr caller_addr call callee is_stable =
    (case st caller_addr of
       None \<Rightarrow> None
     | Some caller \<Rightarrow>
         (case st this_addr of
            Some obj \<Rightarrow> None
          | None \<Rightarrow>
              Some (st(this_addr \<mapsto> FunctionFixpoint_child E caller call callee is_stable))))"

subsection \<open>The fixpoint computation\<close>

definition run :: "'d collab \<Rightarrow> 'd \<Rightarrow> 'd FunctionFixpoint \<Rightarrow> 'd FunctionFixpoint" where
  "run E v this =
    (let s1 = (if \<not> context_empty E (call_context this)
               then logger_start_callee (call_context this) (func this) this
               else this);
         s2 = FwdFixpointIterator_run E v s1;
         s3 = mark_convergence_achieved s2;
         s4 = clear_post s3
     in if \<not> context_empty E (call_context s4)
        then logger_end_callee (call_context s4) (func s4) s4
        else s4)"

text \<open>The loop over the statements of a block in \<^verbatim>\<open>analyze_node\<close>.\<close>

fun transfer_statements ::
  "'d collab \<Rightarrow> Statement list \<Rightarrow> 'd FunctionFixpoint \<Rightarrow> 'd FunctionFixpoint"
where
  "transfer_statements E [] this = this"
| "transfer_statements E (stmt # rest) this =
    transfer_statements E rest (call_transfer_function E stmt this)"

text \<open>
  \<^verbatim>\<open>analyze_node\<close> and \<^verbatim>\<open>analyze_edge\<close> return the invariant of the engine
  by moving it out; the result is the pair of the returned invariant and the object.
\<close>

definition analyze_node ::
  "'d collab \<Rightarrow> BasicBlock \<Rightarrow> 'd \<Rightarrow> 'd FunctionFixpoint \<Rightarrow> 'd \<times> 'd FunctionFixpoint"
where
  "analyze_node E bb v this =
    (let s1 = set_inv v this;
         s2 = call_exec_enter E bb s1;
         s3 = transfer_statements E (statements E bb) s2;
         s4 = call_exec_leave E bb s3
     in (exec_engine s4, s4\<lparr>exec_engine := moved_from E (exec_engine s4)\<rparr>))"

definition analyze_edge ::
  "'d collab \<Rightarrow> BasicBlock \<Rightarrow> BasicBlock \<Rightarrow> 'd \<Rightarrow> 'd FunctionFixpoint
    \<Rightarrow> 'd \<times> 'd FunctionFixpoint"
where
  "analyze_edge E src dest v this =
    (let s1 = set_inv v this;
         s2 = call_exec_edge E src dest s1
     in (exec_engine s2, s2\<lparr>exec_engine := moved_from E (exec_engine s2)\<rparr>))"

definition notify_enter_cycle :: "BasicBlock \<Rightarrow> 'd FunctionFixpoint \<Rightarrow> 'd FunctionFixpoint" where
  "notify_enter_cycle head this = log_call (Logger_start_cycle head) this"

definition notify_cycle_iteration ::
  "BasicBlock \<Rightarrow> 32 word \<Rightarrow> FixpointIterationKind \<Rightarrow> 'd FunctionFixpoint \<Rightarrow> 'd FunctionFixpoint"
where
  "notify_cycle_iteration head iteration kind this =
    log_call (Logger_start_cycle_iter head iteration kind) this"

definition notify_leave_cycle :: "BasicBlock \<Rightarrow> 'd FunctionFixpoint \<Rightarrow> 'd FunctionFixpoint" where
  "notify_leave_cycle head this = log_call (Logger_end_cycle head) this"

definition process_pre :: "BasicBlock \<Rightarrow> 'd \<Rightarrow> 'd FunctionFixpoint \<Rightarrow> 'd FunctionFixpoint" where
  "process_pre bb v this = this"

text \<open>
  \<open>bb\<close> is a block, so it is equal to the result of \<^verbatim>\<open>exit_block_or_null()\<close>
  only when that result is not null.
\<close>

definition process_post ::
  "'d collab \<Rightarrow> BasicBlock \<Rightarrow> 'd \<Rightarrow> 'd FunctionFixpoint \<Rightarrow> 'd FunctionFixpoint"
where
  "process_post E bb post this =
    (if exit_block_or_null E (func this) = Some bb then
       call_exec_exit E (func this) (set_inv post this)
     else this)"

subsection \<open>The check pass\<close>

text \<open>The three nested loops of \<^verbatim>\<open>run_checks\<close>, innermost first.\<close>

fun check_all ::
  "Statement \<Rightarrow> Checker list \<Rightarrow> 'd FunctionFixpoint \<Rightarrow> 'd FunctionFixpoint"
where
  "check_all stmt [] this = this"
| "check_all stmt (checker # rest) this =
    check_all stmt rest
      (checker_check checker stmt (exec_engine this) (call_context this) this)"

definition check_statement ::
  "'d collab \<Rightarrow> Statement \<Rightarrow> 'd FunctionFixpoint \<Rightarrow> 'd FunctionFixpoint"
where
  "check_statement E stmt this =
    (let s1 = (if has_frontend E stmt then check_all stmt (checkers this) this else this)
     in call_transfer_function E stmt s1)"

fun check_statements ::
  "'d collab \<Rightarrow> Statement list \<Rightarrow> 'd FunctionFixpoint \<Rightarrow> 'd FunctionFixpoint"
where
  "check_statements E [] this = this"
| "check_statements E (stmt # rest) this =
    check_statements E rest (check_statement E stmt this)"

definition check_block ::
  "'d collab \<Rightarrow> BasicBlock \<Rightarrow> 'd FunctionFixpoint \<Rightarrow> 'd FunctionFixpoint"
where
  "check_block E bb this =
    (let s1 = set_inv (pre E this bb) this;
         s2 = call_exec_enter E bb s1;
         s3 = check_statements E (statements E bb) s2
     in call_exec_leave E bb s3)"

fun check_blocks ::
  "'d collab \<Rightarrow> BasicBlock list \<Rightarrow> 'd FunctionFixpoint \<Rightarrow> 'd FunctionFixpoint"
where
  "check_blocks E [] this = this"
| "check_blocks E (bb # rest) this = check_blocks E rest (check_block E bb this)"

text \<open>
  \<^verbatim>\<open>this->cfg()\<close> is the body the base class was constructed with, the body of
  \<^verbatim>\<open>_function\<close>.
\<close>

definition run_checks :: "'d collab \<Rightarrow> 'd FunctionFixpoint \<Rightarrow> 'd FunctionFixpoint" where
  "run_checks E this =
    (let s1 = (if \<not> context_empty E (call_context this)
               then logger_start_callee (call_context this) (func this) this
               else this);
         s2 = mark_check_callees s1;
         s3 = check_blocks E (body E (func s2)) s2
     in if \<not> context_empty E (call_context s3)
        then logger_end_callee (call_context s3) (func s3) s3
        else s3)"

subsection \<open>The recursion query\<close>

text \<open>\<^verbatim>\<open>std::find(begin, end, f) != end\<close>.\<close>

definition is_currently_analyzed :: "'d FunctionFixpoint \<Rightarrow> Function \<Rightarrow> bool" where
  "is_currently_analyzed this f = (find (\<lambda>g. g = f) (analyzed_functions this) \<noteq> None)"

subsection \<open>The objects an analysis can hold\<close>

text \<open>
  An object is built by one of the two constructors, a callee's object from an object
  that exists already, and is then used through its member functions.
  \<^verbatim>\<open>extrapolate\<close>, \<^verbatim>\<open>refine\<close>,
  \<^verbatim>\<open>is_decreasing_iterations_fixpoint\<close> and \<^verbatim>\<open>is_currently_analyzed\<close>
  leave the object as it is.
\<close>

inductive reachable :: "'d collab \<Rightarrow> 'd FunctionFixpoint \<Rightarrow> bool" for E :: "'d collab" where
  entry: "reachable E (FunctionFixpoint_entry E cks entry_point)"
| child: "reachable E caller \<Longrightarrow>
    reachable E (FunctionFixpoint_child E caller call callee is_stable)"
| run: "reachable E this \<Longrightarrow> reachable E (run E v this)"
| run_checks: "reachable E this \<Longrightarrow> reachable E (run_checks E this)"
| analyze_node: "reachable E this \<Longrightarrow> reachable E (snd (analyze_node E bb v this))"
| analyze_edge: "reachable E this \<Longrightarrow> reachable E (snd (analyze_edge E src dest v this))"
| notify_enter_cycle: "reachable E this \<Longrightarrow> reachable E (notify_enter_cycle head this)"
| notify_cycle_iteration:
    "reachable E this \<Longrightarrow> reachable E (notify_cycle_iteration head iteration kind this)"
| notify_leave_cycle: "reachable E this \<Longrightarrow> reachable E (notify_leave_cycle head this)"
| process_pre: "reachable E this \<Longrightarrow> reachable E (process_pre bb v this)"
| process_post: "reachable E this \<Longrightarrow> reachable E (process_post E bb v this)"

subsection \<open>Reading an object and its call log\<close>

text \<open>The members that are set by the constructor and never written again.\<close>

definition same_members :: "'d FunctionFixpoint \<Rightarrow> 'd FunctionFixpoint \<Rightarrow> bool" where
  "same_members this this' =
    (opts this' = opts this \<and> func this' = func this
     \<and> call_context this' = call_context this \<and> profile this' = profile this
     \<and> analyzed_functions this' = analyzed_functions this
     \<and> checkers this' = checkers this)"

text \<open>The calls an object has made since an earlier state of it.\<close>

definition new_calls :: "'d FunctionFixpoint \<Rightarrow> 'd FunctionFixpoint \<Rightarrow> 'd call list" where
  "new_calls this this' = drop (length (calls this)) (calls this')"

text \<open>
  The checker invocations of a log: which checker on which statement under which call
  context, in order.
\<close>

fun check_keys :: "'d call list \<Rightarrow> (Checker \<times> Statement \<times> CallContext) list" where
  "check_keys [] = []"
| "check_keys (Checker_check k stmt v c # rest) = (k, stmt, c) # check_keys rest"
| "check_keys (other # rest) = check_keys rest"

text \<open>The invariants a log installs in the statement execution engine, in order.\<close>

fun set_invs :: "'d call list \<Rightarrow> 'd list" where
  "set_invs [] = []"
| "set_invs (Set_inv v # rest) = v # set_invs rest"
| "set_invs (other # rest) = set_invs rest"

fun is_check :: "'d call \<Rightarrow> bool" where
  "is_check (Checker_check k stmt v c) = True"
| "is_check other = False"

fun is_check_by :: "Checker \<Rightarrow> 'd call \<Rightarrow> bool" where
  "is_check_by k (Checker_check k' stmt v c) = (k' = k)"
| "is_check_by k other = False"

fun is_callee_log :: "'d call \<Rightarrow> bool" where
  "is_callee_log (Logger_start_callee c f) = True"
| "is_callee_log (Logger_end_callee c f) = True"
| "is_callee_log other = False"

subsection \<open>The check pass in the words of the specification\<close>

text \<open>
  The specification describes the check pass by what happens at each statement: the
  blocks of the body are walked in order, each from its stored pre-invariant; the
  statements of a block are taken in order; a statement with frontend metadata is given
  to every checker with the state immediately preceding its execution, and only then
  executed. The definitions below say this position by position, with no loop: the
  state before the \<open>j\<close>-th statement of a block is the state at the entry of the block
  with the first \<open>j\<close> statements executed on it. They are compared with the loops of
  \<^verbatim>\<open>run_checks\<close> in the claims.
\<close>

text \<open>Executing one statement on the pair of the invariant and the call execution engine.\<close>

definition execute ::
  "'d collab \<Rightarrow> Statement \<Rightarrow> 'd \<times> CallExecutionEngine \<Rightarrow> 'd \<times> CallExecutionEngine"
where
  "execute E stmt st = transfer_function E stmt (fst st) (snd st)"

text \<open>
  The state immediately preceding the execution of the \<open>j\<close>-th statement of \<open>stmts\<close>
  (counted from \<open>0\<close>), when the first statement is executed in the state \<open>st\<close>.
\<close>

definition state_before ::
  "'d collab \<Rightarrow> Statement list \<Rightarrow> 'd \<times> CallExecutionEngine \<Rightarrow> nat
    \<Rightarrow> 'd \<times> CallExecutionEngine"
where
  "state_before E stmts st j = fold (execute E) (take j stmts) st"

text \<open>
  The calls at the \<open>j\<close>-th statement: every checker on the state before it if it has
  frontend metadata, then its transfer function.
\<close>

definition statement_calls ::
  "'d collab \<Rightarrow> Checker list \<Rightarrow> CallContext \<Rightarrow> Statement list
    \<Rightarrow> 'd \<times> CallExecutionEngine \<Rightarrow> nat \<Rightarrow> 'd call list"
where
  "statement_calls E ks c stmts st j =
    (if has_frontend E (stmts ! j)
     then map (\<lambda>k. Checker_check k (stmts ! j) (fst (state_before E stmts st j)) c) ks
     else [])
    @ [Transfer_function (stmts ! j)]"

text \<open>
  The calls for one block that is walked from the invariant \<open>v\<close> with the call execution
  engine \<open>ce\<close>, and the state the block is left in.
\<close>

definition block_calls ::
  "'d collab \<Rightarrow> Checker list \<Rightarrow> CallContext \<Rightarrow> BasicBlock \<Rightarrow> 'd \<Rightarrow> CallExecutionEngine
    \<Rightarrow> 'd call list"
where
  "block_calls E ks c bb v ce =
    [Set_inv v, Exec_enter bb]
    @ concat (map (statement_calls E ks c (statements E bb) (exec_enter E bb v, ce))
        [0..<length (statements E bb)])
    @ [Exec_leave bb]"

definition block_exit ::
  "'d collab \<Rightarrow> BasicBlock \<Rightarrow> 'd \<Rightarrow> CallExecutionEngine \<Rightarrow> 'd \<times> CallExecutionEngine"
where
  "block_exit E bb v ce =
    (case state_before E (statements E bb) (exec_enter E bb v, ce)
            (length (statements E bb)) of
       (v', ce') \<Rightarrow> (exec_leave E bb v', ce'))"

text \<open>
  The state in which the \<open>i\<close>-th block of \<open>bbs\<close> is reached, when the pass starts in the
  state \<open>st\<close> and \<open>pre_of\<close> gives the stored pre-invariants: the blocks before it have
  been walked, each from its own pre-invariant.
\<close>

definition state_at_block ::
  "'d collab \<Rightarrow> (BasicBlock \<Rightarrow> 'd) \<Rightarrow> BasicBlock list \<Rightarrow> 'd \<times> CallExecutionEngine \<Rightarrow> nat
    \<Rightarrow> 'd \<times> CallExecutionEngine"
where
  "state_at_block E pre_of bbs st i =
    fold (\<lambda>bb st'. block_exit E bb (pre_of bb) (snd st')) (take i bbs) st"

text \<open>The calls of the whole pass over the blocks \<open>bbs\<close>.\<close>

definition pass_calls ::
  "'d collab \<Rightarrow> Checker list \<Rightarrow> CallContext \<Rightarrow> (BasicBlock \<Rightarrow> 'd) \<Rightarrow> BasicBlock list
    \<Rightarrow> 'd \<times> CallExecutionEngine \<Rightarrow> 'd call list"
where
  "pass_calls E ks c pre_of bbs st =
    concat (map (\<lambda>i. block_calls E ks c (bbs ! i) (pre_of (bbs ! i))
                        (snd (state_at_block E pre_of bbs st i)))
      [0..<length bbs])"

subsection \<open>A small analysis\<close>

text \<open>
  Concrete collaborators, to run the definitions on: the abstract values are integers
  (an upper bound, \<open>- 1\<close> for bottom, \<open>1000\<close> for top), the entry point \<open>0\<close> has
  the blocks \<open>0\<close>, \<open>1\<close>, \<open>2\<close> with exit block \<open>2\<close>, block \<open>1\<close> has the statements
  \<open>1\<close>, \<open>2\<close>, \<open>3\<close> of which \<open>2\<close> has no frontend metadata, the profiler knows the
  threshold \<open>10\<close> for block \<open>1\<close> of the entry point, and function \<open>1\<close> has one
  block and no exit block.
\<close>

definition E0 :: "int collab" where
  "E0 =
    \<lparr>ctx_opts =
       \<lparr>loop_iterations = 2, widening_strategy = Widen, narrowing_strategy = Narrow,
        narrowing_iterations = Some 3\<rparr>,
     get_empty = 0,
     get_context = (\<lambda>parent call. Suc (parent + call)),
     context_empty = (\<lambda>c. c = 0),
     fixpoint_profiler =
       Some (\<lambda>f. if f = 0 then Some (\<lambda>bb. if bb = 1 then Some 10 else None) else None),
     body = (\<lambda>f. if f = 0 then [0, 1, 2] else [3]),
     exit_block_or_null = (\<lambda>f. if f = 0 then Some 2 else None),
     statements = (\<lambda>bb. if bb = 1 then [1, 2, 3] else []),
     has_frontend = (\<lambda>stmt. stmt \<noteq> 2),
     bottom = - 1,
     leq = (\<lambda>x y. x \<le> y),
     join_iter_with = max,
     widen_with = (\<lambda>x y. if y \<le> x then x else 1000),
     widen_threshold_with = (\<lambda>x y t. if y \<le> x then x else if y \<le> t then t else 1000),
     narrow_with = (\<lambda>x y. if x = 1000 then y else x),
     narrow_threshold_with = (\<lambda>x y t. if x = 1000 then max y t else x),
     meet_with = min,
     moved_from = (\<lambda>x. - 1),
     exec_enter = (\<lambda>bb x. x),
     exec_leave = (\<lambda>bb x. x),
     exec_edge = (\<lambda>src dest x. x),
     transfer_function = (\<lambda>stmt x c. (if x < 0 then x else x + int stmt, c)),
     exec_exit = (\<lambda>f x c. (x, c)),
     iterator_run =
       (\<lambda>v this. this\<lparr>pre_table := (\<lambda>bb. Some (v + int bb)),
                       post_table := (\<lambda>bb. Some (v + int bb + 1))\<rparr>)\<rparr>"

text \<open>
  The object for the entry point with the checkers \<open>7\<close> and \<open>8\<close>, and the object for
  its callee \<open>1\<close> at the call statement \<open>5\<close>.
\<close>

definition F0 :: "int FunctionFixpoint" where
  "F0 = FunctionFixpoint_entry E0 [7, 8] 0"

definition F1 :: "int FunctionFixpoint" where
  "F1 = FunctionFixpoint_child E0 F0 5 1 True"

section \<open>Properties\<close>

subsection \<open>Members no member function writes\<close>

lemma same_members_refl: "same_members this this"
  by (simp add: same_members_def)

lemma same_members_trans:
  "same_members a b \<Longrightarrow> same_members b c \<Longrightarrow> same_members a c"
  by (simp add: same_members_def)

lemma log_call_same: "same_members this (log_call c this)"
  by (simp add: log_call_def same_members_def)

lemma set_inv_same: "same_members this (set_inv v this)"
  by (simp add: set_inv_def log_call_def same_members_def)

lemma call_exec_enter_same: "same_members this (call_exec_enter E bb this)"
  by (simp add: call_exec_enter_def log_call_def same_members_def)

lemma call_exec_leave_same: "same_members this (call_exec_leave E bb this)"
  by (simp add: call_exec_leave_def log_call_def same_members_def)

lemma call_exec_edge_same: "same_members this (call_exec_edge E src dest this)"
  by (simp add: call_exec_edge_def log_call_def same_members_def)

lemma call_transfer_function_same: "same_members this (call_transfer_function E stmt this)"
  by (simp add: call_transfer_function_def log_call_def same_members_def split: prod.splits)

lemma call_exec_exit_same: "same_members this (call_exec_exit E f this)"
  by (simp add: call_exec_exit_def log_call_def same_members_def split: prod.splits)

lemma mark_convergence_achieved_same: "same_members this (mark_convergence_achieved this)"
  by (simp add: mark_convergence_achieved_def log_call_def same_members_def)

lemma mark_check_callees_same: "same_members this (mark_check_callees this)"
  by (simp add: mark_check_callees_def log_call_def same_members_def)

lemma clear_post_same: "same_members this (clear_post this)"
  by (simp add: clear_post_def log_call_def same_members_def)

lemma FwdFixpointIterator_run_same: "same_members this (FwdFixpointIterator_run E v this)"
  by (simp add: FwdFixpointIterator_run_def Let_def log_call_def same_members_def)

lemma logger_start_callee_same: "same_members this (logger_start_callee c f this)"
  by (simp add: logger_start_callee_def log_call_same)

lemma logger_end_callee_same: "same_members this (logger_end_callee c f this)"
  by (simp add: logger_end_callee_def log_call_same)

lemma checker_check_same: "same_members this (checker_check k stmt v c this)"
  by (simp add: checker_check_def log_call_same)

lemma exec_engine_update_same: "same_members this (this\<lparr>exec_engine := v\<rparr>)"
  by (simp add: same_members_def)

lemma run_same: "same_members this (run E v this)"
proof -
  let ?s1 = "if \<not> context_empty E (call_context this)
             then logger_start_callee (call_context this) (func this) this else this"
  have 1: "same_members this ?s1"
    by (simp add: logger_start_callee_same same_members_refl)
  have 2: "same_members this
      (clear_post (mark_convergence_achieved (FwdFixpointIterator_run E v ?s1)))"
    by (rule same_members_trans [OF 1], rule same_members_trans [OF FwdFixpointIterator_run_same],
        rule same_members_trans [OF mark_convergence_achieved_same], rule clear_post_same)
  show ?thesis
    unfolding run_def Let_def
    using 2 same_members_trans [OF 2 logger_end_callee_same] by simp
qed

lemma transfer_statements_same: "same_members this (transfer_statements E stmts this)"
proof (induction stmts arbitrary: this)
  case Nil
  show ?case by (simp add: same_members_refl)
next
  case (Cons stmt rest)
  show ?case
    using same_members_trans [OF call_transfer_function_same Cons.IH] by simp
qed

lemma analyze_node_same: "same_members this (snd (analyze_node E bb v this))"
  unfolding analyze_node_def Let_def snd_conv
  by (rule same_members_trans [OF set_inv_same], rule same_members_trans [OF call_exec_enter_same],
      rule same_members_trans [OF transfer_statements_same],
      rule same_members_trans [OF call_exec_leave_same], rule exec_engine_update_same)

lemma analyze_edge_same: "same_members this (snd (analyze_edge E src dest v this))"
  unfolding analyze_edge_def Let_def snd_conv
  by (rule same_members_trans [OF set_inv_same], rule same_members_trans [OF call_exec_edge_same],
      rule exec_engine_update_same)

lemma process_post_same: "same_members this (process_post E bb v this)"
  by (simp add: process_post_def same_members_refl
      same_members_trans [OF set_inv_same call_exec_exit_same])

lemma check_all_same: "same_members this (check_all stmt ks this)"
proof (induction ks arbitrary: this)
  case Nil
  show ?case by (simp add: same_members_refl)
next
  case (Cons k rest)
  show ?case
    using same_members_trans [OF checker_check_same Cons.IH] by simp
qed

lemma check_statement_same: "same_members this (check_statement E stmt this)"
  by (simp add: check_statement_def Let_def call_transfer_function_same
      same_members_trans [OF check_all_same call_transfer_function_same])

lemma check_statements_same: "same_members this (check_statements E stmts this)"
proof (induction stmts arbitrary: this)
  case Nil
  show ?case by (simp add: same_members_refl)
next
  case (Cons stmt rest)
  show ?case
    using same_members_trans [OF check_statement_same Cons.IH] by simp
qed

lemma check_block_same: "same_members this (check_block E bb this)"
  unfolding check_block_def Let_def
  by (rule same_members_trans [OF set_inv_same], rule same_members_trans [OF call_exec_enter_same],
      rule same_members_trans [OF check_statements_same], rule call_exec_leave_same)

lemma check_blocks_same: "same_members this (check_blocks E bbs this)"
proof (induction bbs arbitrary: this)
  case Nil
  show ?case by (simp add: same_members_refl)
next
  case (Cons bb rest)
  show ?case
    using same_members_trans [OF check_block_same Cons.IH] by simp
qed

lemma run_checks_same: "same_members this (run_checks E this)"
proof -
  let ?s1 = "if \<not> context_empty E (call_context this)
             then logger_start_callee (call_context this) (func this) this else this"
  have 1: "same_members this ?s1"
    by (simp add: logger_start_callee_same same_members_refl)
  have 2: "same_members this (mark_check_callees ?s1)"
    by (rule same_members_trans [OF 1], rule mark_check_callees_same)
  have 3: "same_members this (check_blocks E bbs (mark_check_callees ?s1))" for bbs
    by (rule same_members_trans [OF 2], rule check_blocks_same)
  show ?thesis
    unfolding run_checks_def Let_def
    using 3 same_members_trans [OF 3 logger_end_callee_same] by simp
qed

subsection \<open>The recursion query and the objects an analysis can hold\<close>

lemma in_set_find: "(find (\<lambda>g. g = f) xs \<noteq> None) = (f \<in> set xs)"
  by (induction xs) auto

lemma reachable_own_function:
  "reachable E this \<Longrightarrow> func this \<in> set (analyzed_functions this)"
proof (induction rule: reachable.induct)
  case (entry cks entry_point)
  show ?case by (simp add: FunctionFixpoint_entry_def)
next
  case (child caller call callee is_stable)
  show ?case by (simp add: FunctionFixpoint_child_def Let_def)
next
  case (run this v)
  with run_same [of this E v] show ?case by (simp add: same_members_def)
next
  case (run_checks this)
  with run_checks_same [of this E] show ?case by (simp add: same_members_def)
next
  case (analyze_node this bb v)
  with analyze_node_same [of this E bb v] show ?case by (simp add: same_members_def)
next
  case (analyze_edge this src dest v)
  with analyze_edge_same [of this E src dest v] show ?case by (simp add: same_members_def)
next
  case (notify_enter_cycle this head)
  then show ?case by (simp add: notify_enter_cycle_def log_call_def)
next
  case (notify_cycle_iteration this head iteration kind)
  then show ?case by (simp add: notify_cycle_iteration_def log_call_def)
next
  case (notify_leave_cycle this head)
  then show ?case by (simp add: notify_leave_cycle_def log_call_def)
next
  case (process_pre this bb v)
  then show ?case by (simp add: process_pre_def)
next
  case (process_post this bb v)
  with process_post_same [of this E bb v] show ?case by (simp add: same_members_def)
qed

subsection \<open>The call log of the check pass\<close>

lemma check_keys_append: "check_keys (xs @ ys) = check_keys xs @ check_keys ys"
  by (induction xs rule: check_keys.induct) simp_all

lemma set_invs_append: "set_invs (xs @ ys) = set_invs xs @ set_invs ys"
  by (induction xs rule: set_invs.induct) simp_all

lemma check_keys_checks:
  "check_keys (map (\<lambda>k. Checker_check k stmt v c) ks) = map (\<lambda>k. (k, stmt, c)) ks"
  by (induction ks) simp_all

lemma set_invs_checks: "set_invs (map (\<lambda>k. Checker_check k stmt v c) ks) = []"
  by (induction ks) simp_all

lemma callee_log_checks:
  "filter is_callee_log (map (\<lambda>k. Checker_check k stmt v c) ks) = []"
  by (induction ks) simp_all

lemma is_check_checks:
  "filter is_check (map (\<lambda>k. Checker_check k stmt v c) ks) =
     map (\<lambda>k. Checker_check k stmt v c) ks"
  by (induction ks) simp_all

lemma is_check_by_checks:
  "distinct ks \<Longrightarrow> k \<in> set ks \<Longrightarrow>
   filter (is_check_by k) (map (\<lambda>k'. Checker_check k' stmt v c) ks) = [Checker_check k stmt v c]"
proof (induction ks)
  case Nil
  then show ?case by simp
next
  case (Cons a rest)
  have none: "k \<notin> set xs \<Longrightarrow>
      filter (is_check_by k) (map (\<lambda>k'. Checker_check k' stmt v c) xs) = []" for xs
    by (induction xs) auto
  show ?case
  proof (cases "a = k")
    case True
    with Cons.prems none [of rest] show ?thesis by simp
  next
    case False
    with Cons show ?thesis by simp
  qed
qed

lemma check_all_calls:
  "calls (check_all stmt ks this) =
     calls this @ map (\<lambda>k. Checker_check k stmt (exec_engine this) (call_context this)) ks"
  by (induction ks arbitrary: this) (simp_all add: checker_check_def log_call_def)

lemma check_all_engines:
  "exec_engine (check_all stmt ks this) = exec_engine this
   \<and> call_exec_engine (check_all stmt ks this) = call_exec_engine this
   \<and> pre_table (check_all stmt ks this) = pre_table this"
  by (induction ks arbitrary: this) (simp_all add: checker_check_def log_call_def)

lemma check_statement_calls:
  "calls (check_statement E stmt this) =
     calls this
     @ (if has_frontend E stmt
        then map (\<lambda>k. Checker_check k stmt (exec_engine this) (call_context this)) (checkers this)
        else [])
     @ [Transfer_function stmt]"
  by (simp add: check_statement_def Let_def call_transfer_function_def log_call_def
      check_all_calls check_all_engines split: prod.splits)

lemma check_statement_pre_table:
  "pre_table (check_statement E stmt this) = pre_table this"
  by (simp add: check_statement_def Let_def call_transfer_function_def log_call_def
      check_all_engines split: prod.splits)

lemma check_statements_pre_table:
  "pre_table (check_statements E stmts this) = pre_table this"
  by (induction stmts arbitrary: this) (simp_all add: check_statement_pre_table)

lemma check_block_pre_table: "pre_table (check_block E bb this) = pre_table this"
  by (simp add: check_block_def Let_def call_exec_leave_def call_exec_enter_def set_inv_def
      log_call_def check_statements_pre_table)

lemma pre_cong: "pre_table this' = pre_table this \<Longrightarrow> pre E this' = pre E this"
  by (rule ext) (simp add: pre_def)

lemma check_statements_calls:
  "\<exists>evs. calls (check_statements E stmts this) = calls this @ evs
     \<and> filter is_callee_log evs = []
     \<and> set_invs evs = []
     \<and> check_keys evs =
         concat (map (\<lambda>stmt. if has_frontend E stmt
                              then map (\<lambda>k. (k, stmt, call_context this)) (checkers this)
                              else []) stmts)"
proof (induction stmts arbitrary: this)
  case Nil
  show ?case by simp
next
  case (Cons stmt rest)
  let ?s = "check_statement E stmt this"
  have same: "call_context ?s = call_context this" "checkers ?s = checkers this"
    using check_statement_same [of this E stmt] by (simp_all add: same_members_def)
  from Cons.IH [of ?s] obtain evs where evs:
    "calls (check_statements E rest ?s) = calls ?s @ evs"
    "filter is_callee_log evs = []"
    "set_invs evs = []"
    "check_keys evs =
       concat (map (\<lambda>stmt. if has_frontend E stmt
                            then map (\<lambda>k. (k, stmt, call_context this)) (checkers this)
                            else []) rest)"
    unfolding same by blast
  let ?here = "(if has_frontend E stmt
        then map (\<lambda>k. Checker_check k stmt (exec_engine this) (call_context this)) (checkers this)
        else [])
     @ [Transfer_function stmt]"
  have "calls (check_statements E (stmt # rest) this) = calls this @ (?here @ evs)"
    using evs(1) by (simp add: check_statement_calls)
  moreover have "filter is_callee_log (?here @ evs) = []"
    using evs(2) by (simp add: callee_log_checks)
  moreover have "set_invs (?here @ evs) = []"
    using evs(3) by (simp add: set_invs_append set_invs_checks)
  moreover have "check_keys (?here @ evs) =
       concat (map (\<lambda>stmt. if has_frontend E stmt
                            then map (\<lambda>k. (k, stmt, call_context this)) (checkers this)
                            else []) (stmt # rest))"
    using evs(4) by (simp add: check_keys_append check_keys_checks)
  ultimately show ?case by blast
qed

lemma check_block_calls:
  "\<exists>evs. calls (check_block E bb this) =
       calls this @ [Set_inv (pre E this bb), Exec_enter bb] @ evs @ [Exec_leave bb]
     \<and> filter is_callee_log evs = []
     \<and> set_invs evs = []
     \<and> check_keys evs =
         concat (map (\<lambda>stmt. if has_frontend E stmt
                              then map (\<lambda>k. (k, stmt, call_context this)) (checkers this)
                              else []) (statements E bb))"
proof -
  let ?s = "call_exec_enter E bb (set_inv (pre E this bb) this)"
  have same: "call_context ?s = call_context this" "checkers ?s = checkers this"
    by (simp_all add: call_exec_enter_def set_inv_def log_call_def)
  have start: "calls ?s = calls this @ [Set_inv (pre E this bb), Exec_enter bb]"
    by (simp add: call_exec_enter_def set_inv_def log_call_def)
  from check_statements_calls [of E "statements E bb" ?s] obtain evs where evs:
    "calls (check_statements E (statements E bb) ?s) = calls ?s @ evs"
    "filter is_callee_log evs = []"
    "set_invs evs = []"
    "check_keys evs =
       concat (map (\<lambda>stmt. if has_frontend E stmt
                            then map (\<lambda>k. (k, stmt, call_context this)) (checkers this)
                            else []) (statements E bb))"
    unfolding same by blast
  have "calls (check_block E bb this) =
       calls this @ [Set_inv (pre E this bb), Exec_enter bb] @ evs @ [Exec_leave bb]"
    using evs(1) start by (simp add: check_block_def Let_def call_exec_leave_def log_call_def)
  with evs(2,3,4) show ?thesis by blast
qed

lemma check_blocks_calls:
  "\<exists>evs. calls (check_blocks E bbs this) = calls this @ evs
     \<and> filter is_callee_log evs = []
     \<and> set_invs evs = map (pre E this) bbs
     \<and> check_keys evs =
         concat (map (\<lambda>bb. concat (map (\<lambda>stmt. if has_frontend E stmt
                              then map (\<lambda>k. (k, stmt, call_context this)) (checkers this)
                              else []) (statements E bb))) bbs)"
proof (induction bbs arbitrary: this)
  case Nil
  show ?case by simp
next
  case (Cons bb rest)
  let ?s = "check_block E bb this"
  have same: "call_context ?s = call_context this" "checkers ?s = checkers this"
    using check_block_same [of this E bb] by (simp_all add: same_members_def)
  have pre_same: "pre E ?s = pre E this"
    by (rule pre_cong) (rule check_block_pre_table)
  from check_block_calls [of E bb this] obtain evs1 where evs1:
    "calls ?s = calls this @ [Set_inv (pre E this bb), Exec_enter bb] @ evs1 @ [Exec_leave bb]"
    "filter is_callee_log evs1 = []"
    "set_invs evs1 = []"
    "check_keys evs1 =
         concat (map (\<lambda>stmt. if has_frontend E stmt
                              then map (\<lambda>k. (k, stmt, call_context this)) (checkers this)
                              else []) (statements E bb))"
    by blast
  from Cons.IH [of ?s] obtain evs where evs:
    "calls (check_blocks E rest ?s) = calls ?s @ evs"
    "filter is_callee_log evs = []"
    "set_invs evs = map (pre E this) rest"
    "check_keys evs =
         concat (map (\<lambda>bb. concat (map (\<lambda>stmt. if has_frontend E stmt
                              then map (\<lambda>k. (k, stmt, call_context this)) (checkers this)
                              else []) (statements E bb))) rest)"
    unfolding same pre_same by blast
  let ?all = "([Set_inv (pre E this bb), Exec_enter bb] @ evs1 @ [Exec_leave bb]) @ evs"
  have "calls (check_blocks E (bb # rest) this) = calls this @ ?all"
    using evs(1) evs1(1) by simp
  moreover have "filter is_callee_log ?all = []"
    using evs(2) evs1(2) by simp
  moreover have "set_invs ?all = map (pre E this) (bb # rest)"
    using evs(3) evs1(3) by (simp add: set_invs_append)
  moreover have "check_keys ?all =
         concat (map (\<lambda>bb. concat (map (\<lambda>stmt. if has_frontend E stmt
                              then map (\<lambda>k. (k, stmt, call_context this)) (checkers this)
                              else []) (statements E bb))) (bb # rest))"
    using evs(4) evs1(4) by (simp add: check_keys_append)
  ultimately show ?case by blast
qed

lemma run_checks_calls:
  "\<exists>pass. calls (run_checks E this) =
       calls this
       @ (if context_empty E (call_context this) then []
          else [Logger_start_callee (call_context this) (func this)])
       @ [Mark_check_callees] @ pass
       @ (if context_empty E (call_context this) then []
          else [Logger_end_callee (call_context this) (func this)])
     \<and> filter is_callee_log pass = []
     \<and> set_invs pass = map (pre E this) (body E (func this))
     \<and> check_keys pass =
         concat (map (\<lambda>bb. concat (map (\<lambda>stmt. if has_frontend E stmt
                              then map (\<lambda>k. (k, stmt, call_context this)) (checkers this)
                              else []) (statements E bb))) (body E (func this)))"
proof -
  let ?s1 = "if \<not> context_empty E (call_context this)
             then logger_start_callee (call_context this) (func this) this else this"
  let ?s2 = "mark_check_callees ?s1"
  let ?s3 = "check_blocks E (body E (func ?s2)) ?s2"
  have same2: "call_context ?s2 = call_context this" "checkers ?s2 = checkers this"
    "func ?s2 = func this"
    by (simp_all add: mark_check_callees_def logger_start_callee_def log_call_def)
  have pre2: "pre E ?s2 = pre E this"
    by (rule pre_cong) (simp add: mark_check_callees_def logger_start_callee_def log_call_def)
  have same3: "call_context ?s3 = call_context this" "func ?s3 = func this"
    using check_blocks_same [of ?s2 E "body E (func ?s2)"] same2
    by (simp_all add: same_members_def)
  have calls2: "calls ?s2 = calls this
       @ (if context_empty E (call_context this) then []
          else [Logger_start_callee (call_context this) (func this)])
       @ [Mark_check_callees]"
    by (simp add: mark_check_callees_def logger_start_callee_def log_call_def)
  from check_blocks_calls [of E "body E (func ?s2)" ?s2] obtain pass where pass:
    "calls ?s3 = calls ?s2 @ pass"
    "filter is_callee_log pass = []"
    "set_invs pass = map (pre E this) (body E (func this))"
    "check_keys pass =
         concat (map (\<lambda>bb. concat (map (\<lambda>stmt. if has_frontend E stmt
                              then map (\<lambda>k. (k, stmt, call_context this)) (checkers this)
                              else []) (statements E bb))) (body E (func this)))"
    unfolding same2 pre2 by blast
  have "run_checks E this =
      (if \<not> context_empty E (call_context this)
       then logger_end_callee (call_context this) (func this) ?s3 else ?s3)"
    unfolding run_checks_def Let_def same3 ..
  then have "calls (run_checks E this) =
       calls this
       @ (if context_empty E (call_context this) then []
          else [Logger_start_callee (call_context this) (func this)])
       @ [Mark_check_callees] @ pass
       @ (if context_empty E (call_context this) then []
          else [Logger_end_callee (call_context this) (func this)])"
    using pass(1) calls2
    by (cases "context_empty E (call_context this)")
       (simp_all add: logger_end_callee_def log_call_def)
  with pass(2,3,4) show ?thesis by blast
qed

subsection \<open>The loops of the check pass and the pass position by position\<close>

lemma upt_Suc_shift: "[0..<Suc n] = 0 # map Suc [0..<n]"
  by (simp add: upt_conv_Cons map_Suc_upt del: upt_Suc)

lemma state_before_Cons:
  "state_before E (stmt # rest) st (Suc j) = state_before E rest (execute E stmt st) j"
  by (simp add: state_before_def)

lemma statement_calls_Cons:
  "statement_calls E ks c (stmt # rest) st (Suc j) =
     statement_calls E ks c rest (execute E stmt st) j"
  by (simp add: statement_calls_def state_before_Cons)

lemma statement_calls_0:
  "statement_calls E ks c (stmt # rest) st 0 =
     (if has_frontend E stmt then map (\<lambda>k. Checker_check k stmt (fst st) c) ks else [])
     @ [Transfer_function stmt]"
  by (simp add: statement_calls_def state_before_def)

lemma statements_calls_Cons:
  "concat (map (statement_calls E ks c (stmt # rest) st) [0..<length (stmt # rest)]) =
     statement_calls E ks c (stmt # rest) st 0
     @ concat (map (statement_calls E ks c rest (execute E stmt st)) [0..<length rest])"
  by (simp add: upt_Suc_shift statement_calls_Cons o_def del: upt_Suc)

lemma check_statement_exact:
  "check_statement E stmt this =
     this\<lparr>exec_engine := fst (execute E stmt (exec_engine this, call_exec_engine this)),
          call_exec_engine := snd (execute E stmt (exec_engine this, call_exec_engine this)),
          calls := calls this
            @ (if has_frontend E stmt
               then map (\<lambda>k. Checker_check k stmt (exec_engine this) (call_context this))
                      (checkers this)
               else [])
            @ [Transfer_function stmt]\<rparr>"
proof -
  have all: "check_all stmt ks s =
      s\<lparr>calls := calls s @ map (\<lambda>k. Checker_check k stmt (exec_engine s) (call_context s)) ks\<rparr>"
    for ks and s :: "'a FunctionFixpoint"
    by (induction ks arbitrary: s) (simp_all add: checker_check_def log_call_def)
  show ?thesis
    by (simp add: check_statement_def Let_def call_transfer_function_def log_call_def all
        execute_def split: prod.splits)
qed

lemma check_statements_exact:
  "check_statements E stmts this =
     this\<lparr>exec_engine :=
            fst (state_before E stmts (exec_engine this, call_exec_engine this) (length stmts)),
          call_exec_engine :=
            snd (state_before E stmts (exec_engine this, call_exec_engine this) (length stmts)),
          calls := calls this
            @ concat (map (statement_calls E (checkers this) (call_context this) stmts
                             (exec_engine this, call_exec_engine this))
                [0..<length stmts])\<rparr>"
proof (induction stmts arbitrary: this)
  case Nil
  show ?case by (simp add: state_before_def)
next
  case (Cons stmt rest)
  show ?case
    unfolding check_statements.simps Cons.IH statements_calls_Cons statement_calls_0
    by (simp add: check_statement_exact state_before_def)
qed

lemma check_block_exact:
  "check_block E bb this =
     this\<lparr>exec_engine := fst (block_exit E bb (pre E this bb) (call_exec_engine this)),
          call_exec_engine := snd (block_exit E bb (pre E this bb) (call_exec_engine this)),
          calls := calls this
            @ block_calls E (checkers this) (call_context this) bb (pre E this bb)
                (call_exec_engine this)\<rparr>"
  by (simp add: check_block_def Let_def check_statements_exact set_inv_def call_exec_enter_def
      call_exec_leave_def log_call_def block_exit_def block_calls_def split: prod.splits)

lemma state_at_block_Cons:
  "state_at_block E pre_of (bb # rest) st (Suc i) =
     state_at_block E pre_of rest (block_exit E bb (pre_of bb) (snd st)) i"
  by (simp add: state_at_block_def)

lemma pass_calls_Nil: "pass_calls E ks c pre_of [] st = []"
  by (simp add: pass_calls_def)

lemma pass_calls_Cons:
  "pass_calls E ks c pre_of (bb # rest) st =
     block_calls E ks c bb (pre_of bb) (snd st)
     @ pass_calls E ks c pre_of rest (block_exit E bb (pre_of bb) (snd st))"
  by (simp add: pass_calls_def upt_Suc_shift state_at_block_Cons o_def del: upt_Suc)
     (simp add: state_at_block_def)

lemma pass_calls_append:
  "pass_calls E ks c pre_of (bs1 @ bs2) st =
     pass_calls E ks c pre_of bs1 st
     @ pass_calls E ks c pre_of bs2 (state_at_block E pre_of bs1 st (length bs1))"
proof (induction bs1 arbitrary: st)
  case Nil
  show ?case by (simp add: pass_calls_Nil state_at_block_def)
next
  case (Cons bb rest)
  show ?case
    by (simp add: pass_calls_Cons Cons.IH state_at_block_Cons)
qed

lemma state_at_block_append:
  "state_at_block E pre_of (bs1 @ bs2) st (length bs1) =
     state_at_block E pre_of bs1 st (length bs1)"
  by (simp add: state_at_block_def)

lemma pre_engines: 
  "pre E (this\<lparr>exec_engine := v, call_exec_engine := ce, calls := cs\<rparr>) = pre E this"
  by (rule ext) (simp add: pre_def)

lemma check_blocks_exact:
  "check_blocks E bbs this =
     this\<lparr>exec_engine :=
            fst (state_at_block E (pre E this) bbs (exec_engine this, call_exec_engine this)
                   (length bbs)),
          call_exec_engine :=
            snd (state_at_block E (pre E this) bbs (exec_engine this, call_exec_engine this)
                   (length bbs)),
          calls := calls this
            @ pass_calls E (checkers this) (call_context this) (pre E this) bbs
                (exec_engine this, call_exec_engine this)\<rparr>"
proof (induction bbs arbitrary: this)
  case Nil
  show ?case by (simp add: pass_calls_Nil state_at_block_def)
next
  case (Cons bb rest)
  show ?case
    unfolding check_blocks.simps Cons.IH
    by (simp add: check_block_exact pass_calls_Cons state_at_block_Cons pre_engines)
qed

lemma run_checks_exact:
  "run_checks E this =
     this\<lparr>exec_engine :=
            fst (state_at_block E (pre E this) (body E (func this))
                   (exec_engine this, (call_exec_engine this)\<lparr>check_callees := True\<rparr>)
                   (length (body E (func this)))),
          call_exec_engine :=
            snd (state_at_block E (pre E this) (body E (func this))
                   (exec_engine this, (call_exec_engine this)\<lparr>check_callees := True\<rparr>)
                   (length (body E (func this)))),
          calls := calls this
            @ (if context_empty E (call_context this) then []
               else [Logger_start_callee (call_context this) (func this)])
            @ [Mark_check_callees]
            @ pass_calls E (checkers this) (call_context this) (pre E this) (body E (func this))
                (exec_engine this, (call_exec_engine this)\<lparr>check_callees := True\<rparr>)
            @ (if context_empty E (call_context this) then []
               else [Logger_end_callee (call_context this) (func this)])\<rparr>"
proof -
  have p: "pre E (this\<lparr>call_exec_engine := ce, calls := cs\<rparr>) = pre E this" for ce cs
    by (rule ext) (simp add: pre_def)
  show ?thesis
    by (cases "context_empty E (call_context this)")
       (simp_all add: run_checks_def Let_def check_blocks_exact mark_check_callees_def
         logger_start_callee_def logger_end_callee_def log_call_def p)
qed

lemma block_calls_three:
  assumes "statements E bb = [s1, s2, s3]"
    and "has_frontend E s1" "\<not> has_frontend E s2" "has_frontend E s3"
    and "transfer_function E s1 (exec_enter E bb v) ce = (v2, c2)"
    and "transfer_function E s2 v2 c2 = (v3, c3)"
  shows "block_calls E ks c bb v ce =
      [Set_inv v, Exec_enter bb]
      @ map (\<lambda>k. Checker_check k s1 (exec_enter E bb v) c) ks
      @ [Transfer_function s1, Transfer_function s2]
      @ map (\<lambda>k. Checker_check k s3 v3 c) ks
      @ [Transfer_function s3, Exec_leave bb]"
  using assms
  by (simp add: block_calls_def upt_Suc_shift statement_calls_def state_before_def execute_def
      del: upt_Suc)

subsection \<open>Unsigned arithmetic\<close>

lemma word_succ_unat: "(L::32 word) < it \<Longrightarrow> (it = L + 1) = (unat it = unat L + 1)"
  by (metis (mono_tags, lifting) of_nat_unat ucast_id unat_plus_simple
    unsigned_1 word_arith_nat_add word_le_less_eq)

subsection \<open>The small analysis, evaluated\<close>

lemmas fixture_defs = E0_def F0_def F1_def FunctionFixpoint_entry_def FunctionFixpoint_child_def

section \<open>The claims\<close>

text \<open>
  C1. At every loop head and every ascending iteration, \<^verbatim>\<open>extrapolate\<close> returns the
  plain join of \<open>before\<close> with \<open>after\<close> while the iteration is at most the configured
  number of loop iterations. Beyond that number, under the strategy Widen it returns the
  thresholded widening on exactly the iteration that follows the configured number, when a
  profile exists and has a widening hint for the head, and the plain widening in every
  other case; under the strategy Join it returns the plain join at every iteration.
\<close>

theorem extrapolate_policy:
  "(iteration \<le> loop_iterations (opts this) \<longrightarrow>
      extrapolate E this head iteration before_inv after_inv =
        Inr (join_iter_with E before_inv after_inv))
   \<and> (widening_strategy (opts this) = Widen
        \<and> unat iteration = unat (loop_iterations (opts this)) + 1
        \<and> profile this = Some p \<and> p head = Some threshold \<longrightarrow>
      extrapolate E this head iteration before_inv after_inv =
        Inr (widen_threshold_with E before_inv after_inv threshold))
   \<and> (widening_strategy (opts this) = Widen
        \<and> loop_iterations (opts this) < iteration
        \<and> \<not> (unat iteration = unat (loop_iterations (opts this)) + 1
              \<and> (\<exists>q t. profile this = Some q \<and> q head = Some t)) \<longrightarrow>
      extrapolate E this head iteration before_inv after_inv =
        Inr (widen_with E before_inv after_inv))
   \<and> (widening_strategy (opts this) = Join \<longrightarrow>
      extrapolate E this head iteration before_inv after_inv =
        Inr (join_iter_with E before_inv after_inv))"
proof (intro conjI impI)
  assume "iteration \<le> loop_iterations (opts this)"
  then show "extrapolate E this head iteration before_inv after_inv =
      Inr (join_iter_with E before_inv after_inv)"
    by (simp add: extrapolate_def)
next
  assume a: "widening_strategy (opts this) = Widen
        \<and> unat iteration = unat (loop_iterations (opts this)) + 1
        \<and> profile this = Some p \<and> p head = Some threshold"
  then have lt: "loop_iterations (opts this) < iteration"
    by (simp add: word_less_nat_alt)
  with a have "iteration = loop_iterations (opts this) + 1"
    by (simp add: word_succ_unat)
  moreover from lt have "\<not> iteration \<le> loop_iterations (opts this)"
    by simp
  ultimately show "extrapolate E this head iteration before_inv after_inv =
        Inr (widen_threshold_with E before_inv after_inv threshold)"
    using a by (simp add: extrapolate_def)
next
  assume a: "widening_strategy (opts this) = Widen
        \<and> loop_iterations (opts this) < iteration
        \<and> \<not> (unat iteration = unat (loop_iterations (opts this)) + 1
              \<and> (\<exists>q t. profile this = Some q \<and> q head = Some t))"
  then have "(iteration = loop_iterations (opts this) + 1) =
      (unat iteration = unat (loop_iterations (opts this)) + 1)"
    by (simp add: word_succ_unat)
  with a show "extrapolate E this head iteration before_inv after_inv =
      Inr (widen_with E before_inv after_inv)"
    by (auto simp add: extrapolate_def not_le split: option.splits)
next
  assume "widening_strategy (opts this) = Join"
  then show "extrapolate E this head iteration before_inv after_inv =
      Inr (join_iter_with E before_inv after_inv)"
    by (simp add: extrapolate_def)
qed

theorem extrapolate_policy_witness:
  "loop_iterations (opts F0) = 2
   \<and> extrapolate E0 F0 1 2 3 5 = Inr 5
   \<and> extrapolate E0 F0 1 3 3 5 = Inr 10
   \<and> extrapolate E0 F0 1 4 3 5 = Inr 1000
   \<and> extrapolate E0 F0 0 3 3 5 = Inr 1000
   \<and> extrapolate E0 F1 1 3 3 5 = Inr 1000
   \<and> extrapolate E0 (F0\<lparr>opts := (opts F0)\<lparr>widening_strategy := Join\<rparr>\<rparr>) 1 7 3 5 = Inr 5"
  using extrapolate_policy [where this = F0 and iteration = 2 and head = 1 and E = E0
        and before_inv = 3 and after_inv = 5]
    extrapolate_policy [where this = F0 and iteration = 3 and head = 1 and E = E0
        and p = "\<lambda>bb. if bb = 1 then Some 10 else None" and threshold = 10
        and before_inv = 3 and after_inv = 5]
    extrapolate_policy [where this = F0 and iteration = 4 and head = 1 and E = E0
        and before_inv = 3 and after_inv = 5]
    extrapolate_policy [where this = F0 and iteration = 3 and head = 0 and E = E0
        and before_inv = 3 and after_inv = 5]
    extrapolate_policy [where this = F1 and iteration = 3 and head = 1 and E = E0
        and before_inv = 3 and after_inv = 5]
    extrapolate_policy [where this = "F0\<lparr>opts := (opts F0)\<lparr>widening_strategy := Join\<rparr>\<rparr>"
        and iteration = 7 and head = 1 and E = E0 and before_inv = 3 and after_inv = 5]
  by (simp add: fixture_defs)

text \<open>
  C2. At every loop head and every descending iteration, \<^verbatim>\<open>refine\<close> under the
  strategy Narrow returns the thresholded narrowing exactly when the iteration is 1, a
  profile exists and it has a widening hint for the head, and the plain narrowing
  otherwise; under the strategy Meet it returns the meet.
\<close>

theorem refine_policy:
  "(narrowing_strategy (opts this) = Narrow \<and> iteration = 1
        \<and> profile this = Some p \<and> p head = Some threshold \<longrightarrow>
      refine E this head iteration before_inv after_inv =
        Inr (narrow_threshold_with E before_inv after_inv threshold))
   \<and> (narrowing_strategy (opts this) = Narrow
        \<and> \<not> (iteration = 1 \<and> (\<exists>q t. profile this = Some q \<and> q head = Some t)) \<longrightarrow>
      refine E this head iteration before_inv after_inv =
        Inr (narrow_with E before_inv after_inv))
   \<and> (narrowing_strategy (opts this) = Meet \<longrightarrow>
      refine E this head iteration before_inv after_inv =
        Inr (meet_with E before_inv after_inv))"
  by (auto simp add: refine_def split: option.splits)

theorem refine_policy_witness:
  "refine E0 F0 1 1 1000 5 = Inr 10
   \<and> refine E0 F0 1 2 1000 5 = Inr 5
   \<and> refine E0 F0 0 1 1000 5 = Inr 5
   \<and> refine E0 F1 1 1 1000 5 = Inr 5
   \<and> refine E0 (F0\<lparr>opts := (opts F0)\<lparr>narrowing_strategy := Meet\<rparr>\<rparr>) 1 1 7 5 = Inr 5"
  using refine_policy [where this = F0 and iteration = 1 and head = 1 and E = E0
        and p = "\<lambda>bb. if bb = 1 then Some 10 else None" and threshold = 10
        and before_inv = 1000 and after_inv = 5]
    refine_policy [where this = F0 and iteration = 2 and head = 1 and E = E0
        and before_inv = 1000 and after_inv = 5]
    refine_policy [where this = F0 and iteration = 1 and head = 0 and E = E0
        and before_inv = 1000 and after_inv = 5]
    refine_policy [where this = F1 and iteration = 1 and head = 1 and E = E0
        and before_inv = 1000 and after_inv = 5]
    refine_policy [where this = "F0\<lparr>opts := (opts F0)\<lparr>narrowing_strategy := Meet\<rparr>\<rparr>"
        and iteration = 1 and head = 1 and E = E0 and before_inv = 7 and after_inv = 5]
  by (simp add: fixture_defs)

text \<open>
  C3. \<^verbatim>\<open>is_decreasing_iterations_fixpoint\<close> returns true if and only if a bound on the
  narrowing iterations is configured and the iteration has reached it, or
  \<^verbatim>\<open>before.leq(after)\<close> holds. With the bound \<open>k\<close> configured it returns true at
  iteration \<open>k\<close> whatever the two states are.
\<close>

theorem decreasing_fixpoint_condition:
  "is_decreasing_iterations_fixpoint E this head iteration before_inv after_inv =
      ((\<exists>k. narrowing_iterations (opts this) = Some k \<and> k \<le> iteration)
       \<or> leq E before_inv after_inv)
   \<and> (narrowing_iterations (opts this) = Some k \<longrightarrow>
        is_decreasing_iterations_fixpoint E this head k before_inv after_inv)"
  by (auto simp add: is_decreasing_iterations_fixpoint_def split: option.splits)

theorem decreasing_fixpoint_condition_witness:
  "narrowing_iterations (opts F0) = Some 3
   \<and> is_decreasing_iterations_fixpoint E0 F0 1 3 9 4
   \<and> \<not> is_decreasing_iterations_fixpoint E0 F0 1 2 9 4
   \<and> is_decreasing_iterations_fixpoint E0 F0 1 2 4 9"
  using decreasing_fixpoint_condition [where E = E0 and this = F0 and head = 1
        and iteration = 3 and before_inv = 9 and after_inv = 4 and k = 3]
    decreasing_fixpoint_condition [where E = E0 and this = F0 and head = 1
        and iteration = 2 and before_inv = 9 and after_inv = 4 and k = 3]
    decreasing_fixpoint_condition [where E = E0 and this = F0 and head = 1
        and iteration = 2 and before_inv = 4 and after_inv = 9 and k = 3]
  by (simp add: fixture_defs)

text \<open>
  C4. \<^verbatim>\<open>run\<close> tells the logger that the callee starts before it calls the iterator
  and that the callee ends as its last call, both exactly when the call context is not
  empty; after the iterator has returned it marks the convergence in the call execution
  engine, then clears the post-invariants, which leaves the table of post-invariants empty
  and the table of pre-invariants as the iterator left it; none of its calls is a call of
  a checker.
\<close>

theorem run_sequence:
  "calls (run E v this) =
      calls this
      @ (if context_empty E (call_context this) then []
         else [Logger_start_callee (call_context this) (func this)])
      @ [Iterator_run v, Mark_convergence_achieved, Iterator_clear_post]
      @ (if context_empty E (call_context this) then []
         else [Logger_end_callee (call_context this) (func this)])
   \<and> convergence_achieved (call_exec_engine (run E v this))
   \<and> post_table (run E v this) = Map.empty
   \<and> pre_table (run E v this) =
       pre_table (iterator_run E v
         (if context_empty E (call_context this) then this
          else logger_start_callee (call_context this) (func this) this))
   \<and> filter is_check (new_calls this (run E v this)) = []"
  by (cases "context_empty E (call_context this)")
     (simp_all add: run_def Let_def new_calls_def logger_start_callee_def logger_end_callee_def
       FwdFixpointIterator_run_def mark_convergence_achieved_def clear_post_def log_call_def)

theorem run_sequence_witness:
  "calls (run E0 0 F1) =
      [Logger_start_callee 6 1, Iterator_run 0, Mark_convergence_achieved, Iterator_clear_post,
       Logger_end_callee 6 1]
   \<and> calls (run E0 0 F0) = [Iterator_run 0, Mark_convergence_achieved, Iterator_clear_post]
   \<and> convergence_achieved (call_exec_engine (run E0 0 F1))
   \<and> post_table (run E0 0 F1) 3 = None
   \<and> pre_table (run E0 0 F1) 3 = Some 3"
  using run_sequence [where E = E0 and v = 0 and this = F1]
    run_sequence [where E = E0 and v = 0 and this = F0]
  by (simp add: fixture_defs logger_start_callee_def log_call_def)

text \<open>
  C5. \<^verbatim>\<open>run_checks\<close> does exactly what the specification says of the check pass,
  position by position: it tells the logger that the callee starts and ends around the
  whole pass, exactly when the call context is not empty, switches the call execution
  engine to checking callees, and then walks the blocks of the body in order, each from
  its stored pre-invariant, and the statements of each block in order; a statement is
  given to every checker if and only if it has frontend metadata, with the invariant
  immediately preceding its execution, and only then its transfer function is applied.
  The checkers are owned through unique pointers, so they are pairwise distinct. For a
  block of the body with the statements \<open>s1\<close>, \<open>s2\<close>, \<open>s3\<close> of which \<open>s1\<close> and
  \<open>s3\<close> have frontend metadata, the calls for that block are the checkers on \<open>s1\<close> with
  the invariant after entering the block, the transfer functions of \<open>s1\<close> and \<open>s2\<close>,
  the checkers on \<open>s3\<close> with the invariant these two leave, and the transfer function of
  \<open>s3\<close>: two invocations of every checker.
\<close>

theorem run_checks_pass:
  "run_checks E this =
     this\<lparr>exec_engine :=
            fst (state_at_block E (pre E this) (body E (func this))
                   (exec_engine this, (call_exec_engine this)\<lparr>check_callees := True\<rparr>)
                   (length (body E (func this)))),
          call_exec_engine :=
            snd (state_at_block E (pre E this) (body E (func this))
                   (exec_engine this, (call_exec_engine this)\<lparr>check_callees := True\<rparr>)
                   (length (body E (func this)))),
          calls := calls this
            @ (if context_empty E (call_context this) then []
               else [Logger_start_callee (call_context this) (func this)])
            @ [Mark_check_callees]
            @ pass_calls E (checkers this) (call_context this) (pre E this) (body E (func this))
                (exec_engine this, (call_exec_engine this)\<lparr>check_callees := True\<rparr>)
            @ (if context_empty E (call_context this) then []
               else [Logger_end_callee (call_context this) (func this)])\<rparr>
   \<and> filter is_callee_log (new_calls this (run_checks E this)) =
       (if context_empty E (call_context this) then []
        else [Logger_start_callee (call_context this) (func this),
              Logger_end_callee (call_context this) (func this)])
   \<and> set_invs (new_calls this (run_checks E this)) = map (pre E this) (body E (func this))
   \<and> check_keys (new_calls this (run_checks E this)) =
       concat (map (\<lambda>bb. concat (map (\<lambda>stmt. if has_frontend E stmt
                            then map (\<lambda>k. (k, stmt, call_context this)) (checkers this)
                            else []) (statements E bb))) (body E (func this)))
   \<and> (body E (func this) = bs1 @ bb # bs2
        \<and> statements E bb = [s1, s2, s3]
        \<and> has_frontend E s1 \<and> \<not> has_frontend E s2 \<and> has_frontend E s3
        \<and> state_at_block E (pre E this) bs1
             (exec_engine this, (call_exec_engine this)\<lparr>check_callees := True\<rparr>) (length bs1)
            = (v1, c1)
        \<and> transfer_function E s1 (exec_enter E bb (pre E this bb)) c1 = (v2, c2)
        \<and> transfer_function E s2 v2 c2 = (v3, c3) \<longrightarrow>
      calls (run_checks E this) =
        calls this
        @ (if context_empty E (call_context this) then []
           else [Logger_start_callee (call_context this) (func this)])
        @ [Mark_check_callees]
        @ pass_calls E (checkers this) (call_context this) (pre E this) bs1
            (exec_engine this, (call_exec_engine this)\<lparr>check_callees := True\<rparr>)
        @ [Set_inv (pre E this bb), Exec_enter bb]
        @ map (\<lambda>k. Checker_check k s1 (exec_enter E bb (pre E this bb)) (call_context this))
            (checkers this)
        @ [Transfer_function s1, Transfer_function s2]
        @ map (\<lambda>k. Checker_check k s3 v3 (call_context this)) (checkers this)
        @ [Transfer_function s3, Exec_leave bb]
        @ pass_calls E (checkers this) (call_context this) (pre E this) bs2
            (block_exit E bb (pre E this bb) c1)
        @ (if context_empty E (call_context this) then []
           else [Logger_end_callee (call_context this) (func this)]))
   \<and> (body E (func this) = [bb]
        \<and> statements E bb = [s1, s2, s3]
        \<and> has_frontend E s1 \<and> \<not> has_frontend E s2 \<and> has_frontend E s3
        \<and> transfer_function E s1 (exec_enter E bb (pre E this bb))
             ((call_exec_engine this)\<lparr>check_callees := True\<rparr>) = (v2, c2)
        \<and> transfer_function E s2 v2 c2 = (v3, c3) \<longrightarrow>
      filter is_check (new_calls this (run_checks E this)) =
        map (\<lambda>k. Checker_check k s1 (exec_enter E bb (pre E this bb)) (call_context this))
          (checkers this)
        @ map (\<lambda>k. Checker_check k s3 v3 (call_context this)) (checkers this)
      \<and> (distinct (checkers this) \<and> k \<in> set (checkers this) \<longrightarrow>
          filter (is_check_by k) (new_calls this (run_checks E this)) =
            [Checker_check k s1 (exec_enter E bb (pre E this bb)) (call_context this),
             Checker_check k s3 v3 (call_context this)]))"
proof -
  let ?st = "(exec_engine this, (call_exec_engine this)\<lparr>check_callees := True\<rparr>)"
  let ?start = "if context_empty E (call_context this) then []
      else [Logger_start_callee (call_context this) (func this)]"
  let ?end = "if context_empty E (call_context this) then []
      else [Logger_end_callee (call_context this) (func this)]"
  let ?ks = "checkers this"
  let ?c = "call_context this"
  note exact = run_checks_exact [of E this]
  have log: "calls (run_checks E this) =
      calls this @ ?start @ [Mark_check_callees]
      @ pass_calls E ?ks ?c (pre E this) (body E (func this)) ?st @ ?end"
    by (subst exact) simp
  from run_checks_calls [of E this] obtain pass where pass:
    "calls (run_checks E this) = calls this @ ?start @ [Mark_check_callees] @ pass @ ?end"
    "filter is_callee_log pass = []"
    "set_invs pass = map (pre E this) (body E (func this))"
    "check_keys pass =
       concat (map (\<lambda>bb. concat (map (\<lambda>stmt. if has_frontend E stmt
                            then map (\<lambda>k. (k, stmt, call_context this)) (checkers this)
                            else []) (statements E bb))) (body E (func this)))"
    by blast
  have new: "new_calls this (run_checks E this) = ?start @ [Mark_check_callees] @ pass @ ?end"
    by (simp add: new_calls_def pass(1))
  have callee: "filter is_callee_log (new_calls this (run_checks E this)) =
       (if context_empty E (call_context this) then []
        else [Logger_start_callee (call_context this) (func this),
              Logger_end_callee (call_context this) (func this)])"
    by (simp add: new pass(2))
  have invs: "set_invs (new_calls this (run_checks E this)) =
      map (pre E this) (body E (func this))"
    by (simp add: new set_invs_append pass(3))
  have keys: "check_keys (new_calls this (run_checks E this)) =
       concat (map (\<lambda>bb. concat (map (\<lambda>stmt. if has_frontend E stmt
                            then map (\<lambda>k. (k, stmt, call_context this)) (checkers this)
                            else []) (statements E bb))) (body E (func this)))"
    by (simp add: new check_keys_append pass(4))
  have anywhere: "calls (run_checks E this) =
        calls this @ ?start @ [Mark_check_callees]
        @ pass_calls E ?ks ?c (pre E this) bs1 ?st
        @ [Set_inv (pre E this bb), Exec_enter bb]
        @ map (\<lambda>k. Checker_check k s1 (exec_enter E bb (pre E this bb)) ?c) ?ks
        @ [Transfer_function s1, Transfer_function s2]
        @ map (\<lambda>k. Checker_check k s3 v3 ?c) ?ks
        @ [Transfer_function s3, Exec_leave bb]
        @ pass_calls E ?ks ?c (pre E this) bs2 (block_exit E bb (pre E this bb) c1)
        @ ?end"
    if h: "body E (func this) = bs1 @ bb # bs2
        \<and> statements E bb = [s1, s2, s3]
        \<and> has_frontend E s1 \<and> \<not> has_frontend E s2 \<and> has_frontend E s3
        \<and> state_at_block E (pre E this) bs1 ?st (length bs1) = (v1, c1)
        \<and> transfer_function E s1 (exec_enter E bb (pre E this bb)) c1 = (v2, c2)
        \<and> transfer_function E s2 v2 c2 = (v3, c3)"
  proof -
    from h have three: "block_calls E ?ks ?c bb (pre E this bb) c1 =
        [Set_inv (pre E this bb), Exec_enter bb]
        @ map (\<lambda>k. Checker_check k s1 (exec_enter E bb (pre E this bb)) ?c) ?ks
        @ [Transfer_function s1, Transfer_function s2]
        @ map (\<lambda>k. Checker_check k s3 v3 ?c) ?ks
        @ [Transfer_function s3, Exec_leave bb]"
      by (intro block_calls_three [where ?s2.0 = s2 and ?v2.0 = v2 and ?c2.0 = c2
            and ?c3.0 = c3]) simp_all
    from h have "pass_calls E ?ks ?c (pre E this) (body E (func this)) ?st =
        pass_calls E ?ks ?c (pre E this) bs1 ?st
        @ block_calls E ?ks ?c bb (pre E this bb) c1
        @ pass_calls E ?ks ?c (pre E this) bs2 (block_exit E bb (pre E this bb) c1)"
      by (simp add: pass_calls_append pass_calls_Cons)
    with log three show ?thesis by simp
  qed
  have alone: "filter is_check (new_calls this (run_checks E this)) =
        map (\<lambda>k. Checker_check k s1 (exec_enter E bb (pre E this bb)) ?c) ?ks
        @ map (\<lambda>k. Checker_check k s3 v3 ?c) ?ks
      \<and> (distinct ?ks \<and> k \<in> set ?ks \<longrightarrow>
          filter (is_check_by k) (new_calls this (run_checks E this)) =
            [Checker_check k s1 (exec_enter E bb (pre E this bb)) ?c,
             Checker_check k s3 v3 ?c])"
    if h: "body E (func this) = [bb]
        \<and> statements E bb = [s1, s2, s3]
        \<and> has_frontend E s1 \<and> \<not> has_frontend E s2 \<and> has_frontend E s3
        \<and> transfer_function E s1 (exec_enter E bb (pre E this bb))
             ((call_exec_engine this)\<lparr>check_callees := True\<rparr>) = (v2, c2)
        \<and> transfer_function E s2 v2 c2 = (v3, c3)"
  proof -
    from h have three: "block_calls E ?ks ?c bb (pre E this bb)
          ((call_exec_engine this)\<lparr>check_callees := True\<rparr>) =
        [Set_inv (pre E this bb), Exec_enter bb]
        @ map (\<lambda>k. Checker_check k s1 (exec_enter E bb (pre E this bb)) ?c) ?ks
        @ [Transfer_function s1, Transfer_function s2]
        @ map (\<lambda>k. Checker_check k s3 v3 ?c) ?ks
        @ [Transfer_function s3, Exec_leave bb]"
      by (intro block_calls_three [where ?s2.0 = s2 and ?v2.0 = v2 and ?c2.0 = c2
            and ?c3.0 = c3]) simp_all
    from h log three have "new_calls this (run_checks E this) =
        ?start @ [Mark_check_callees, Set_inv (pre E this bb), Exec_enter bb]
        @ map (\<lambda>k. Checker_check k s1 (exec_enter E bb (pre E this bb)) ?c) ?ks
        @ [Transfer_function s1, Transfer_function s2]
        @ map (\<lambda>k. Checker_check k s3 v3 ?c) ?ks
        @ [Transfer_function s3, Exec_leave bb] @ ?end"
      by (simp add: new_calls_def pass_calls_Cons pass_calls_Nil)
    then show ?thesis
      by (simp add: is_check_checks is_check_by_checks)
  qed
  from exact callee invs keys anywhere alone show ?thesis
    by blast
qed

theorem run_checks_pass_witness:
  "body E0 (func (run E0 0 F0)) = [0] @ 1 # [2]
   \<and> statements E0 1 = [1, 2, 3]
   \<and> has_frontend E0 1 \<and> \<not> has_frontend E0 2 \<and> has_frontend E0 3
   \<and> checkers (run E0 0 F0) = [7, 8]
   \<and> calls (run_checks E0 (run E0 0 F0)) =
       [Iterator_run 0, Mark_convergence_achieved, Iterator_clear_post,
        Mark_check_callees,
        Set_inv 0, Exec_enter 0, Exec_leave 0,
        Set_inv 1, Exec_enter 1,
        Checker_check 7 1 1 0, Checker_check 8 1 1 0,
        Transfer_function 1, Transfer_function 2,
        Checker_check 7 3 4 0, Checker_check 8 3 4 0,
        Transfer_function 3, Exec_leave 1,
        Set_inv 2, Exec_enter 2, Exec_leave 2]
   \<and> filter (is_check_by 8)
        (new_calls (run E0 0 F0) (run_checks (E0\<lparr>body := \<lambda>f. [1]\<rparr>) (run E0 0 F0))) =
       [Checker_check 8 1 1 0, Checker_check 8 3 4 0]
   \<and> calls (run_checks E0 F1) =
       [Logger_start_callee 6 1, Mark_check_callees, Set_inv (- 1), Exec_enter 3, Exec_leave 3,
        Logger_end_callee 6 1]"
proof -
  let ?o = "run E0 0 F0"
  let ?E1 = "E0\<lparr>body := \<lambda>f. [1]\<rparr>"
  let ?ce = "\<lparr>context_stable = True, convergence_achieved = True, check_callees = True\<rparr>"
  have run0: "?o =
      F0\<lparr>call_exec_engine := (call_exec_engine F0)\<lparr>convergence_achieved := True\<rparr>,
         pre_table := (\<lambda>bb. Some (int bb)), post_table := Map.empty,
         calls := [Iterator_run 0, Mark_convergence_achieved, Iterator_clear_post]\<rparr>"
    by (simp add: run_def Let_def FwdFixpointIterator_run_def mark_convergence_achieved_def
        clear_post_def log_call_def fixture_defs)
  note evaluate = fixture_defs pre_def pass_calls_Cons pass_calls_Nil block_calls_def
    block_exit_def state_at_block_def state_before_def statement_calls_def execute_def
    new_calls_def
  have anywhere: "body E0 (func ?o) = [0] @ 1 # [2]
        \<and> statements E0 1 = [1, 2, 3]
        \<and> has_frontend E0 1 \<and> \<not> has_frontend E0 2 \<and> has_frontend E0 3
        \<and> state_at_block E0 (pre E0 ?o) [0]
             (exec_engine ?o, (call_exec_engine ?o)\<lparr>check_callees := True\<rparr>) (length [0::nat])
            = (0, ?ce)
        \<and> transfer_function E0 1 (exec_enter E0 1 (pre E0 ?o 1)) ?ce = (2, ?ce)
        \<and> transfer_function E0 2 2 ?ce = (4, ?ce)"
    unfolding run0 by (simp add: evaluate)
  have alone: "body ?E1 (func ?o) = [1]
        \<and> statements ?E1 1 = [1, 2, 3]
        \<and> has_frontend ?E1 1 \<and> \<not> has_frontend ?E1 2 \<and> has_frontend ?E1 3
        \<and> transfer_function ?E1 1 (exec_enter ?E1 1 (pre ?E1 ?o 1))
             ((call_exec_engine ?o)\<lparr>check_callees := True\<rparr>) = (2, ?ce)
        \<and> transfer_function ?E1 2 2 ?ce = (4, ?ce)"
    unfolding run0 by (simp add: evaluate)
  have checkers: "distinct (checkers ?o) \<and> 8 \<in> set (checkers ?o)"
    unfolding run0 by (simp add: fixture_defs)
  note at_E0 = run_checks_pass [where E = E0 and this = ?o and ?bs1.0 = "[0]" and bb = 1
      and ?bs2.0 = "[2]" and ?s1.0 = 1 and ?s2.0 = 2 and ?s3.0 = 3 and ?v1.0 = 0
      and ?c1.0 = ?ce and ?v2.0 = 2 and ?c2.0 = ?ce and ?v3.0 = 4 and ?c3.0 = ?ce]
  note at_E1 = run_checks_pass [where E = ?E1 and this = ?o and bb = 1
      and ?s1.0 = 1 and ?s2.0 = 2 and ?s3.0 = 3 and ?v2.0 = 2 and ?c2.0 = ?ce and ?v3.0 = 4
      and ?c3.0 = ?ce and k = 8]
  note whole = at_E0 [THEN conjunct2, THEN conjunct2, THEN conjunct2, THEN conjunct2,
      THEN conjunct1, THEN mp, OF anywhere]
  note single = at_E1 [THEN conjunct2, THEN conjunct2, THEN conjunct2, THEN conjunct2,
      THEN conjunct2, THEN mp, OF alone, THEN conjunct2, THEN mp, OF checkers]
  have 1: "calls (run_checks E0 ?o) =
       [Iterator_run 0, Mark_convergence_achieved, Iterator_clear_post,
        Mark_check_callees,
        Set_inv 0, Exec_enter 0, Exec_leave 0,
        Set_inv 1, Exec_enter 1,
        Checker_check 7 1 1 0, Checker_check 8 1 1 0,
        Transfer_function 1, Transfer_function 2,
        Checker_check 7 3 4 0, Checker_check 8 3 4 0,
        Transfer_function 3, Exec_leave 1,
        Set_inv 2, Exec_enter 2, Exec_leave 2]"
    unfolding whole unfolding run0 by (simp add: evaluate)
  have 2: "filter (is_check_by 8) (new_calls ?o (run_checks ?E1 ?o)) =
       [Checker_check 8 1 1 0, Checker_check 8 3 4 0]"
    unfolding single unfolding run0 by (simp add: evaluate)
  have 3: "calls (run_checks E0 F1) =
       [Logger_start_callee 6 1, Mark_check_callees, Set_inv (- 1), Exec_enter 3, Exec_leave 3,
        Logger_end_callee 6 1]"
    by (subst run_checks_pass [where E = E0 and this = F1, THEN conjunct1])
       (simp add: evaluate)
  from anywhere checkers 1 2 3 show ?thesis
    unfolding run0 by (simp add: fixture_defs)
qed

text \<open>
  C6. The object for a callee, built from the caller, a call statement and the callee, has
  the call context that the factory gives for the caller's call context and the call
  statement, and its vector of analyzed functions is the caller's with the callee appended
  at the end; the construction always succeeds on a live caller and a free address, and
  leaves the caller, and so the caller's vector, as it was.
\<close>

theorem child_construction:
  "st caller_addr = Some caller \<and> st this_addr = None \<longrightarrow>
    (\<exists>st' child.
       construct_child E st this_addr caller_addr call callee is_stable = Some st'
       \<and> st' this_addr = Some child
       \<and> call_context child = get_context E (call_context caller) call
       \<and> analyzed_functions child = analyzed_functions caller @ [callee]
       \<and> st' caller_addr = Some caller
       \<and> (\<forall>a. a \<noteq> this_addr \<longrightarrow> st' a = st a))"
  by (auto simp add: construct_child_def FunctionFixpoint_child_def Let_def)

theorem child_construction_witness:
  "\<exists>st' child.
     construct_child E0 [0 \<mapsto> F0] 1 0 5 1 True = Some st'
     \<and> st' 1 = Some child
     \<and> call_context child = 6
     \<and> analyzed_functions child = [0, 1]
     \<and> st' 0 = Some F0
     \<and> analyzed_functions F0 = [0]"
  using child_construction [where st = "[0 \<mapsto> F0]" and caller_addr = 0 and caller = F0
        and this_addr = 1 and E = E0 and call = 5 and callee = 1 and is_stable = True]
  by (auto simp add: fixture_defs)

text \<open>
  C7. \<^verbatim>\<open>is_currently_analyzed(f)\<close> is true if and only if \<open>f\<close> is in the vector of
  analyzed functions. For the object built for a callee it is true of the callee and of
  every function in the caller's vector, and false of every other function.
\<close>

theorem is_currently_analyzed_membership:
  "is_currently_analyzed this f = (f \<in> set (analyzed_functions this))
   \<and> is_currently_analyzed (FunctionFixpoint_child E caller call callee is_stable) g =
       (g \<in> set (analyzed_functions caller) \<or> g = callee)
   \<and> is_currently_analyzed (FunctionFixpoint_child E caller call callee is_stable) callee
   \<and> (g \<notin> set (analyzed_functions caller) \<and> g \<noteq> callee \<longrightarrow>
        \<not> is_currently_analyzed (FunctionFixpoint_child E caller call callee is_stable) g)"
  unfolding is_currently_analyzed_def in_set_find
  by (auto simp add: FunctionFixpoint_child_def Let_def)

theorem is_currently_analyzed_membership_witness:
  "is_currently_analyzed F1 0 \<and> is_currently_analyzed F1 1 \<and> \<not> is_currently_analyzed F1 2
   \<and> is_currently_analyzed (FunctionFixpoint_child E0 F1 9 0 False) 0"
  using is_currently_analyzed_membership [where this = F1 and f = 0 and E = E0 and caller = F0
        and call = 5 and callee = 1 and is_stable = True and g = 0]
    is_currently_analyzed_membership [where this = F1 and f = 1 and E = E0 and caller = F0
        and call = 5 and callee = 1 and is_stable = True and g = 2]
    is_currently_analyzed_membership [where this = F1 and f = 2 and E = E0 and caller = F1
        and call = 9 and callee = 0 and is_stable = False and g = 0]
  by (simp add: fixture_defs)

text \<open>
  C8. When the widening strategy is Widen or Join, \<^verbatim>\<open>extrapolate\<close> returns an abstract
  value, and when the narrowing strategy is Narrow or Meet, so does \<^verbatim>\<open>refine\<close>: the
  branch for an unexpected strategy is not reached. A strategy value that is not an
  enumerator, once it reaches the dispatch, ends in the fatal failure
  "unexpected strategy", and nothing else makes either function fail.
\<close>

theorem unexpected_strategy_fatal:
  "(widening_strategy (opts this) = Widen \<or> widening_strategy (opts this) = Join \<longrightarrow>
      (\<exists>v. extrapolate E this head iteration before_inv after_inv = Inr v))
   \<and> (narrowing_strategy (opts this) = Narrow \<or> narrowing_strategy (opts this) = Meet \<longrightarrow>
      (\<exists>v. refine E this head iteration before_inv after_inv = Inr v))
   \<and> (widening_strategy (opts this) = Unexpected_WideningStrategy n
        \<and> loop_iterations (opts this) < iteration \<longrightarrow>
      extrapolate E this head iteration before_inv after_inv =
        Inl (Unreachable ''unexpected strategy''))
   \<and> (narrowing_strategy (opts this) = Unexpected_NarrowingStrategy m \<longrightarrow>
      refine E this head iteration before_inv after_inv =
        Inl (Unreachable ''unexpected strategy''))
   \<and> (\<exists>e. extrapolate E this head iteration before_inv after_inv = Inl e) =
       (loop_iterations (opts this) < iteration
        \<and> (\<exists>x. widening_strategy (opts this) = Unexpected_WideningStrategy x))
   \<and> (\<exists>e. refine E this head iteration before_inv after_inv = Inl e) =
       (\<exists>x. narrowing_strategy (opts this) = Unexpected_NarrowingStrategy x)"
  by (auto simp add: extrapolate_def refine_def not_le [symmetric]
      split: option.splits WideningStrategy.splits NarrowingStrategy.splits)

theorem unexpected_strategy_fatal_witness:
  "(\<exists>v. extrapolate E0 F0 1 3 3 5 = Inr v)
   \<and> (\<exists>v. refine E0 F0 1 1 1000 5 = Inr v)
   \<and> extrapolate E0
        (F0\<lparr>opts := (opts F0)\<lparr>widening_strategy := Unexpected_WideningStrategy 2\<rparr>\<rparr>)
        1 3 3 5 = Inl (Unreachable ''unexpected strategy'')
   \<and> refine E0
        (F0\<lparr>opts := (opts F0)\<lparr>narrowing_strategy := Unexpected_NarrowingStrategy 2\<rparr>\<rparr>)
        1 1 1000 5 = Inl (Unreachable ''unexpected strategy'')"
  using unexpected_strategy_fatal [where this = F0 and E = E0 and head = 1 and iteration = 3
        and before_inv = 3 and after_inv = 5]
    unexpected_strategy_fatal [where this = F0 and E = E0 and head = 1 and iteration = 1
        and before_inv = 1000 and after_inv = 5]
    unexpected_strategy_fatal
      [where this = "F0\<lparr>opts := (opts F0)\<lparr>widening_strategy := Unexpected_WideningStrategy 2\<rparr>\<rparr>"
        and E = E0 and head = 1 and iteration = 3 and before_inv = 3 and after_inv = 5 and n = 2]
    unexpected_strategy_fatal
      [where this = "F0\<lparr>opts := (opts F0)\<lparr>narrowing_strategy := Unexpected_NarrowingStrategy 2\<rparr>\<rparr>"
        and E = E0 and head = 1 and iteration = 1 and before_inv = 1000 and after_inv = 5
        and m = 2]
  by (simp add: fixture_defs)

text \<open>
  C9. The vector of analyzed functions of every object contains the object's own
  function: the constructor for the entry point makes it the one-element vector of the
  entry point, the constructor for a callee appends the callee to the caller's vector, and
  no member function changes the vector or the function; so \<^verbatim>\<open>is_currently_analyzed\<close>
  is true of the own function of every object an analysis can hold.
\<close>

theorem own_function_analyzed:
  "analyzed_functions (FunctionFixpoint_entry E cks entry_point) = [entry_point]
   \<and> analyzed_functions (FunctionFixpoint_child E caller call callee is_stable) =
       analyzed_functions caller @ [callee]
   \<and> (reachable E this \<longrightarrow> is_currently_analyzed this (func this))
   \<and> analyzed_functions (run E v this) = analyzed_functions this
   \<and> analyzed_functions (run_checks E this) = analyzed_functions this
   \<and> analyzed_functions (snd (analyze_node E bb v this)) = analyzed_functions this
   \<and> analyzed_functions (snd (analyze_edge E src dest v this)) = analyzed_functions this
   \<and> analyzed_functions (process_post E bb v this) = analyzed_functions this"
  using run_same [of this E v] run_checks_same [of this E] analyze_node_same [of this E bb v]
    analyze_edge_same [of this E src dest v] process_post_same [of this E bb v]
  unfolding is_currently_analyzed_def in_set_find
  by (simp add: same_members_def reachable_own_function
      FunctionFixpoint_entry_def FunctionFixpoint_child_def Let_def)

theorem own_function_analyzed_witness:
  "reachable E0 (run_checks E0 (run E0 0 F1))
   \<and> is_currently_analyzed (run_checks E0 (run E0 0 F1)) (func (run_checks E0 (run E0 0 F1)))
   \<and> func (run_checks E0 (run E0 0 F1)) = 1
   \<and> analyzed_functions (run_checks E0 (run E0 0 F1)) = [0, 1]"
proof -
  have r: "reachable E0 (run_checks E0 (run E0 0 F1))"
    unfolding F1_def F0_def
    by (intro reachable.run_checks reachable.run reachable.child reachable.entry)
  have m: "same_members F1 (run_checks E0 (run E0 0 F1))"
    by (rule same_members_trans [OF run_same run_checks_same])
  from r m own_function_analyzed [where E = E0 and caller = F0 and call = 5 and callee = 1
      and is_stable = True and this = "run_checks E0 (run E0 0 F1)"]
  show ?thesis
    by (simp add: same_members_def fixture_defs)
qed

text \<open>
  C10. For a block that is not the exit block of the function, and so for every block of
  a function that has no exit block, \<^verbatim>\<open>process_post\<close> does nothing: the object,
  its engines and its call log are as before, so no state is installed and the function
  exit is not executed. Only for the exit block does it install the state and execute the
  exit.
\<close>

theorem process_post_only_exit:
  "(exit_block_or_null E (func this) \<noteq> Some bb \<longrightarrow> process_post E bb post this = this)
   \<and> (exit_block_or_null E (func this) = None \<longrightarrow> process_post E bb post this = this)
   \<and> (exit_block_or_null E (func this) = Some bb \<longrightarrow>
        calls (process_post E bb post this) = calls this @ [Set_inv post, Exec_exit (func this)])"
  by (simp add: process_post_def call_exec_exit_def set_inv_def log_call_def split: prod.splits)

theorem process_post_only_exit_witness:
  "exit_block_or_null E0 (func F0) = Some 2
   \<and> exit_block_or_null E0 (func F1) = None
   \<and> process_post E0 1 4 F0 = F0
   \<and> process_post E0 3 4 F1 = F1
   \<and> calls (process_post E0 2 4 F0) = [Set_inv 4, Exec_exit 0]"
  using process_post_only_exit [where E = E0 and this = F0 and bb = 1 and post = 4]
    process_post_only_exit [where E = E0 and this = F1 and bb = 3 and post = 4]
    process_post_only_exit [where E = E0 and this = F0 and bb = 2 and post = 4]
  by (simp add: fixture_defs)

end
